theory Spec2Isabelle
  imports Main "HOL-Library.Word"
begin

unbundle bit_operations_syntax

section \<open>Bitboards (squava.go)\<close>

text \<open>
  A bitboard is a Go \<open>uint64\<close>: bit \<open>r*8+c\<close> is the cell in row \<open>r\<close>, column \<open>c\<close>.
  Go's right shift on \<open>uint64\<close> is \<open>drop_bit\<close>, its left shift is \<open>push_bit\<close> (bits
  shifted past bit 63 are lost), and \<open>^x\<close> is \<open>NOT x\<close>.
\<close>

type_synonym Bitboard = "64 word"

definition FileA :: Bitboard where "FileA = 0x0101010101010101"
definition FileB :: Bitboard where "FileB = push_bit 1 FileA"
definition FileC :: Bitboard where "FileC = push_bit 2 FileA"
definition FileF :: Bitboard where "FileF = push_bit 5 FileA"
definition FileG :: Bitboard where "FileG = push_bit 6 FileA"
definition FileH :: Bitboard where "FileH = 0x8080808080808080"
definition Full :: Bitboard where "Full = 0xFFFFFFFFFFFFFFFF"

text \<open>Run-time panics of the Go program, as values.\<close>

datatype go_panic = NegativeShift | IndexOutOfRange | DivideByZero | SliceBounds

record Board =
  P1 :: Bitboard
  P2 :: Bitboard
  P3 :: Bitboard
  Occupied :: Bitboard

record Move =
  r :: int
  c :: int

text \<open>Go's integer division truncates towards zero.\<close>

definition go_div :: "int \<Rightarrow> int \<Rightarrow> int" where
  "go_div a b = sgn a * sgn b * (\<bar>a\<bar> div \<bar>b\<bar>)"

definition go_mod :: "int \<Rightarrow> int \<Rightarrow> int" where
  "go_mod a b = a - b * go_div a b"

definition ToIndex :: "Move \<Rightarrow> int" where
  "ToIndex m = r m * 8 + c m"

definition MoveFromIndex :: "int \<Rightarrow> Move" where
  "MoveFromIndex idx = \<lparr>r = go_div idx 8, c = go_mod idx 8\<rparr>"

text \<open>
  \<open>Board.Set\<close>: \<open>mask := uint64(1) << idx\<close> with a signed shift count, which panics when
  negative and gives 0 from 64 on; a player id other than 0, 1, 2 marks the cell occupied
  and gives it to nobody.
\<close>

definition Board_Set :: "Board \<Rightarrow> int \<Rightarrow> int \<Rightarrow> go_panic + Board" where
  "Board_Set b idx pID =
     (if idx < 0 then Inl NegativeShift
      else let mask = push_bit (nat idx) (1 :: Bitboard);
               b1 = b\<lparr>Occupied := Occupied b OR mask\<rparr>
           in Inr (if pID = 0 then b1\<lparr>P1 := P1 b1 OR mask\<rparr>
                   else if pID = 1 then b1\<lparr>P2 := P2 b1 OR mask\<rparr>
                   else if pID = 2 then b1\<lparr>P3 := P3 b1 OR mask\<rparr>
                   else b1))"

definition GetPlayerBoard :: "Board \<Rightarrow> int \<Rightarrow> Bitboard" where
  "GetPlayerBoard b pID =
     (if pID = 0 then P1 b else if pID = 1 then P2 b else if pID = 2 then P3 b else 0)"

definition CheckWin :: "Bitboard \<Rightarrow> bool" where
  "CheckWin bb =
     (let h = bb AND drop_bit 1 bb AND NOT FileH in
      if h AND drop_bit 2 h AND NOT (FileH OR drop_bit 1 FileH) \<noteq> 0 then True
      else let v = bb AND drop_bit 8 bb in
      if v AND drop_bit 16 v \<noteq> 0 then True
      else let d1 = bb AND drop_bit 9 bb AND NOT FileH in
      if d1 AND drop_bit 18 d1 AND NOT (FileH OR drop_bit 9 FileH) \<noteq> 0 then True
      else let d2 = bb AND drop_bit 7 bb AND NOT FileA in
      if d2 AND drop_bit 14 d2 AND NOT (FileA OR drop_bit 7 FileA) \<noteq> 0 then True
      else False)"

definition CheckLose :: "Bitboard \<Rightarrow> bool" where
  "CheckLose bb =
     (let h = bb AND drop_bit 1 bb AND NOT FileH in
      if h AND drop_bit 1 h AND NOT FileH \<noteq> 0 then True
      else let v = bb AND drop_bit 8 bb in
      if v AND drop_bit 8 v \<noteq> 0 then True
      else let d1 = bb AND drop_bit 9 bb AND NOT FileH in
      if d1 AND drop_bit 9 d1 AND NOT FileH \<noteq> 0 then True
      else let d2 = bb AND drop_bit 7 bb AND NOT FileA in
      if d2 AND drop_bit 7 d2 AND NOT FileA \<noteq> 0 then True
      else False)"

section \<open>One step of the game (SimulateStep)\<close>

record State =
  board :: Board
  nextPlayerID :: int
  remainingPlayers :: "int list"
  winnerID :: int

text \<open>
  The loop \<open>for i, id := range players { if id == currentID { pIdx = i; break } }\<close>:
  the first index holding the id, and 0 when there is none.
\<close>

fun indexOf :: "int \<Rightarrow> int list \<Rightarrow> nat" where
  "indexOf x [] = 0"
| "indexOf x (y # ys) = (if y = x then 0 else if x \<in> set ys then Suc (indexOf x ys) else 0)"

text \<open>\<open>append(s[:i], s[i+1:]...)\<close> on a fresh copy: the slice without position \<open>i\<close>.\<close>

definition removeAt :: "nat \<Rightarrow> 'a list \<Rightarrow> 'a list" where
  "removeAt i xs = take i xs @ drop (Suc i) xs"

definition SimulateStep :: "Board \<Rightarrow> int list \<Rightarrow> int \<Rightarrow> Move \<Rightarrow> go_panic + State" where
  "SimulateStep brd players currentID move =
     (case Board_Set brd (ToIndex move) currentID of
        Inl e \<Rightarrow> Inl e
      | Inr newBoard \<Rightarrow>
          let newPlayers = players;
              pIdx = indexOf currentID newPlayers
          in if CheckWin (GetPlayerBoard newBoard currentID)
             then Inr \<lparr>board = newBoard, nextPlayerID = -1,
                       remainingPlayers = newPlayers, winnerID = currentID\<rparr>
             else if CheckLose (GetPlayerBoard newBoard currentID)
             then (if newPlayers = [] then Inl SliceBounds
                   else let newPlayers' = removeAt pIdx newPlayers in
                     if length newPlayers' = 1
                     then Inr \<lparr>board = newBoard, nextPlayerID = -1,
                               remainingPlayers = newPlayers', winnerID = newPlayers' ! 0\<rparr>
                     else let pIdx' = (if pIdx \<ge> length newPlayers' then 0 else pIdx) in
                       if newPlayers' = [] then Inl IndexOutOfRange
                       else Inr \<lparr>board = newBoard, nextPlayerID = newPlayers' ! pIdx',
                                 remainingPlayers = newPlayers', winnerID = -1\<rparr>)
             else if newPlayers = [] then Inl DivideByZero
             else Inr \<lparr>board = newBoard,
                       nextPlayerID = newPlayers ! ((pIdx + 1) mod length newPlayers),
                       remainingPlayers = newPlayers, winnerID = -1\<rparr>)"

text \<open>A sequence of moves, each by the player named with it, threading board and players.\<close>

fun play :: "Board \<Rightarrow> int list \<Rightarrow> (int \<times> int) list \<Rightarrow> go_panic + State" where
  "play brd players [] =
     Inr \<lparr>board = brd, nextPlayerID = -1, remainingPlayers = players, winnerID = -1\<rparr>"
| "play brd players [(p, cell)] = SimulateStep brd players p (MoveFromIndex cell)"
| "play brd players ((p, cell) # rest) =
     (case SimulateStep brd players p (MoveFromIndex cell) of
        Inl e \<Rightarrow> Inl e
      | Inr s \<Rightarrow> play (board s) (remainingPlayers s) rest)"

definition emptyBoard :: Board where
  "emptyBoard = \<lparr>P1 = 0, P2 = 0, P3 = 0, Occupied = 0\<rparr>"


section \<open>Winning cells: the scalar extractor (GetWinningMoves)\<close>

text \<open>
  The statements of \<open>GetWinningMoves\<close> in their order, one direction after the other; the
  anti-diagonal block adds its first and third pattern twice, as the source does.
\<close>

definition GetWinningMoves :: "Board \<Rightarrow> int \<Rightarrow> Bitboard" where
  "GetWinningMoves brd pID =
     (let myBB = GetPlayerBoard brd pID;
          emptyBB = NOT (Occupied brd);
          threats = 0;
          \<comment> \<open>horizontal\<close>
          r1 = drop_bit 1 myBB AND NOT FileH;
          r2 = drop_bit 2 myBB AND NOT (FileH OR FileG);
          r3 = drop_bit 3 myBB AND NOT (FileH OR FileG OR FileF);
          t = myBB AND r1 AND r2;
          threats = threats OR (push_bit 3 t AND NOT (FileA OR FileB OR FileC));
          threats = threats OR (r1 AND r2 AND r3);
          t = myBB AND r1 AND r3;
          threats = threats OR (push_bit 2 t AND NOT (FileA OR FileB));
          t = myBB AND r2 AND r3;
          threats = threats OR (push_bit 1 t AND NOT FileA);
          \<comment> \<open>vertical\<close>
          r1 = drop_bit 8 myBB;
          r2 = drop_bit 16 myBB;
          r3 = drop_bit 24 myBB;
          t = myBB AND r1 AND r2;
          threats = threats OR push_bit 24 t;
          threats = threats OR (r1 AND r2 AND r3);
          t = myBB AND r1 AND r3;
          threats = threats OR push_bit 16 t;
          t = myBB AND r2 AND r3;
          threats = threats OR push_bit 8 t;
          \<comment> \<open>diagonal\<close>
          r1 = drop_bit 9 myBB AND NOT FileH;
          r2 = drop_bit 18 myBB AND NOT (FileH OR FileG);
          r3 = drop_bit 27 myBB AND NOT (FileH OR FileG OR FileF);
          t = myBB AND r1 AND r2;
          threats = threats OR (push_bit 27 t AND NOT (FileA OR FileB OR FileC));
          threats = threats OR (r1 AND r2 AND r3);
          t = myBB AND r1 AND r3;
          threats = threats OR (push_bit 18 t AND NOT (FileA OR FileB));
          t = myBB AND r2 AND r3;
          threats = threats OR (push_bit 9 t AND NOT FileA);
          \<comment> \<open>anti-diagonal\<close>
          r1 = drop_bit 7 myBB AND NOT FileA;
          r2 = drop_bit 14 myBB AND NOT (FileA OR FileB);
          r3 = drop_bit 21 myBB AND NOT (FileA OR FileB OR FileC);
          t = myBB AND r1 AND r2;
          threats = threats OR (push_bit 21 t AND NOT (FileH OR FileG OR FileF));
          threats = threats OR (r1 AND r2 AND r3);
          t = myBB AND r1 AND r3;
          threats = threats OR (push_bit 14 t AND NOT (FileH OR FileG));
          t = myBB AND r1 AND r2;
          threats = threats OR (push_bit 21 t AND NOT (FileH OR FileG OR FileF));
          threats = threats OR (r1 AND r2 AND r3);
          t = myBB AND r1 AND r3;
          threats = threats OR (push_bit 14 t AND NOT (FileH OR FileG));
          t = myBB AND r2 AND r3;
          threats = threats OR (push_bit 7 t AND NOT FileH)
      in threats AND emptyBB)"

section \<open>Wins and losses: the four-lane kernel (winslosses_amd64.s)\<close>

text \<open>
  A 256-bit register is four 64-bit lanes, lane 0 first; a 128-bit register is two. The
  lanes are the directions: horizontal (step 1), vertical (8), diagonal (9), anti-diagonal (7).
\<close>

type_synonym ymm = "Bitboard \<times> Bitboard \<times> Bitboard \<times> Bitboard"
type_synonym xmm = "Bitboard \<times> Bitboard"

definition shifts1 :: ymm where "shifts1 = (1, 8, 9, 7)"
definition shifts2 :: ymm where "shifts2 = (2, 16, 18, 14)"
definition shifts3 :: ymm where "shifts3 = (3, 24, 27, 21)"

definition maskR1 :: ymm where
  "maskR1 = (0x7F7F7F7F7F7F7F7F, 0xFFFFFFFFFFFFFFFF, 0x7F7F7F7F7F7F7F7F, 0xFEFEFEFEFEFEFEFE)"
definition maskL1 :: ymm where
  "maskL1 = (0xFEFEFEFEFEFEFEFE, 0xFFFFFFFFFFFFFFFF, 0xFEFEFEFEFEFEFEFE, 0x7F7F7F7F7F7F7F7F)"
definition maskR2 :: ymm where
  "maskR2 = (0x3F3F3F3F3F3F3F3F, 0xFFFFFFFFFFFFFFFF, 0x3F3F3F3F3F3F3F3F, 0xFCFCFCFCFCFCFCFC)"
definition maskL2 :: ymm where
  "maskL2 = (0xFCFCFCFCFCFCFCFC, 0xFFFFFFFFFFFFFFFF, 0xFCFCFCFCFCFCFCFC, 0x3F3F3F3F3F3F3F3F)"
definition maskR3 :: ymm where
  "maskR3 = (0x1F1F1F1F1F1F1F1F, 0xFFFFFFFFFFFFFFFF, 0x1F1F1F1F1F1F1F1F, 0xF8F8F8F8F8F8F8F8)"
definition maskL3 :: ymm where
  "maskL3 = (0xF8F8F8F8F8F8F8F8, 0xFFFFFFFFFFFFFFFF, 0xF8F8F8F8F8F8F8F8, 0x1F1F1F1F1F1F1F1F)"

definition VPBROADCASTQ :: "Bitboard \<Rightarrow> ymm" where
  "VPBROADCASTQ x = (x, x, x, x)"

text \<open>Per-lane shifts by per-lane counts; a count of 64 or more gives 0.\<close>

fun VPSRLVQ :: "ymm \<Rightarrow> ymm \<Rightarrow> ymm" where
  "VPSRLVQ (c0, c1, c2, c3) (a0, a1, a2, a3) =
     (drop_bit (unat c0) a0, drop_bit (unat c1) a1, drop_bit (unat c2) a2, drop_bit (unat c3) a3)"

fun VPSLLVQ :: "ymm \<Rightarrow> ymm \<Rightarrow> ymm" where
  "VPSLLVQ (c0, c1, c2, c3) (a0, a1, a2, a3) =
     (push_bit (unat c0) a0, push_bit (unat c1) a1, push_bit (unat c2) a2, push_bit (unat c3) a3)"

fun VPAND :: "ymm \<Rightarrow> ymm \<Rightarrow> ymm" where
  "VPAND (a0, a1, a2, a3) (b0, b1, b2, b3) = (a0 AND b0, a1 AND b1, a2 AND b2, a3 AND b3)"

fun VPOR :: "ymm \<Rightarrow> ymm \<Rightarrow> ymm" where
  "VPOR (a0, a1, a2, a3) (b0, b1, b2, b3) = (a0 OR b0, a1 OR b1, a2 OR b2, a3 OR b3)"

text \<open>The low half of a 256-bit register is the 128-bit register of the same number.\<close>

fun low128 :: "ymm \<Rightarrow> xmm" where
  "low128 (a0, a1, a2, a3) = (a0, a1)"

text \<open>\<open>VEXTRACTI128 $1\<close>: the upper half.\<close>

fun VEXTRACTI128_1 :: "ymm \<Rightarrow> xmm" where
  "VEXTRACTI128_1 (a0, a1, a2, a3) = (a2, a3)"

fun VPOR128 :: "xmm \<Rightarrow> xmm \<Rightarrow> xmm" where
  "VPOR128 (a0, a1) (b0, b1) = (a0 OR b0, a1 OR b1)"

text \<open>\<open>VPSHUFD $0x4E\<close> picks the doublewords 2, 3, 0, 1: it swaps the two 64-bit halves.\<close>

fun VPSHUFD_4E :: "xmm \<Rightarrow> xmm" where
  "VPSHUFD_4E (a0, a1) = (a1, a0)"

text \<open>\<open>MOVQ X, AX\<close>: the low 64 bits.\<close>

fun MOVQ :: "xmm \<Rightarrow> Bitboard" where
  "MOVQ (a0, a1) = a0"

definition getWinsAndLossesAVX2 :: "Bitboard \<Rightarrow> Bitboard \<Rightarrow> Bitboard \<times> Bitboard" where
  "getWinsAndLossesAVX2 b e =
     (let Y0 = VPBROADCASTQ b;
          Y1 = VPBROADCASTQ e;
          Y2 = shifts1;
          Y3 = VPSRLVQ Y2 Y0;
          Y3 = VPAND maskR1 Y3;
          Y4 = VPSLLVQ Y2 Y0;
          Y4 = VPAND maskL1 Y4;
          Y2 = shifts2;
          Y5 = VPSRLVQ Y2 Y0;
          Y5 = VPAND maskR2 Y5;
          Y6 = VPSLLVQ Y2 Y0;
          Y6 = VPAND maskL2 Y6;
          Y2 = shifts3;
          Y7 = VPSRLVQ Y2 Y0;
          Y7 = VPAND maskR3 Y7;
          Y8 = VPSLLVQ Y2 Y0;
          Y8 = VPAND maskL3 Y8;
          \<comment> \<open>L lanes\<close>
          Y9 = VPAND Y3 Y5;
          Y10 = VPAND Y3 Y4;
          Y9 = VPOR Y9 Y10;
          Y10 = VPAND Y4 Y6;
          Y9 = VPOR Y10 Y9;
          Y9 = VPAND Y1 Y9;
          \<comment> \<open>W lanes\<close>
          Y10 = VPOR Y7 Y4;
          Y11 = VPAND Y3 Y5;
          Y10 = VPAND Y11 Y10;
          Y11 = VPOR Y3 Y8;
          Y12 = VPAND Y4 Y6;
          Y11 = VPAND Y12 Y11;
          Y10 = VPOR Y10 Y11;
          Y10 = VPAND Y1 Y10;
          \<comment> \<open>horizontal OR for W\<close>
          X11 = VEXTRACTI128_1 Y10;
          X10 = VPOR128 X11 (low128 Y10);
          X11 = VPSHUFD_4E X10;
          X10 = VPOR128 X11 X10;
          w = MOVQ X10;
          \<comment> \<open>horizontal OR for L\<close>
          X11 = VEXTRACTI128_1 Y9;
          X9 = VPOR128 X11 (low128 Y9);
          X11 = VPSHUFD_4E X9;
          X9 = VPOR128 X11 X9;
          l = MOVQ X9
      in (w, l))"

text \<open>
  Modelled from the spec: the Go function \<open>GetWinsAndLosses\<close>, which the tests and
  main_wasm.go call and src/ does not hold. The spec's extractor ORs the four lane results
  (the kernel above) and ends with \<open>lose &= !wins\<close>.
\<close>

definition GetWinsAndLosses :: "Bitboard \<Rightarrow> Bitboard \<Rightarrow> Bitboard \<times> Bitboard" where
  "GetWinsAndLosses bb emptyBB =
     (let (w, l) = getWinsAndLossesAVX2 bb emptyBB in (w, l AND NOT w))"

section \<open>Wins and losses: the reference enumeration (slowGetWinsAndLosses)\<close>

definition directions :: "(int \<times> int) list" where
  "directions = [(0, 1), (1, 0), (1, 1), (1, -1)]"

text \<open>
  The body of the innermost loop: the cell \<open>t\<close> steps from \<open>(row, col)\<close> along \<open>dir\<close> counts
  when it is on the board and is the new stone or a stone of \<open>b\<close>.
\<close>

definition counted :: "Bitboard \<Rightarrow> int \<Rightarrow> int \<Rightarrow> int \<times> int \<Rightarrow> int \<Rightarrow> bool" where
  "counted b row col dir t =
     (let nr = row + t * fst dir; nc = col + t * snd dir
      in 0 \<le> nr \<and> nr < 8 \<and> 0 \<le> nc \<and> nc < 8 \<and>
         ((nr = row \<and> nc = col) \<or> bit b (nat (nr * 8 + nc))))"

text \<open>The loop \<open>for k := 0; k < n; k++\<close> with its counter.\<close>

definition run_count :: "Bitboard \<Rightarrow> int \<Rightarrow> int \<Rightarrow> int \<times> int \<Rightarrow> int \<Rightarrow> int \<Rightarrow> nat" where
  "run_count b row col dir startOffset n =
     length (filter (\<lambda>k. counted b row col dir (startOffset + k)) [0..n - 1])"

text \<open>
  The two outer loops with their \<open>break\<close>s: some direction and some start offset from
  \<open>-(n-1)\<close> to 0 give a full count.
\<close>

definition has_run :: "Bitboard \<Rightarrow> int \<Rightarrow> int \<Rightarrow> int \<Rightarrow> bool" where
  "has_run b row col n =
     list_ex (\<lambda>dir. list_ex (\<lambda>startOffset. run_count b row col dir startOffset n = nat n)
                            [- (n - 1)..0])
             directions"

definition slow_cell :: "Bitboard \<Rightarrow> Bitboard \<Rightarrow> Bitboard \<times> Bitboard \<Rightarrow> nat \<Rightarrow> Bitboard \<times> Bitboard" where
  "slow_cell b e wl i =
     (if e AND push_bit i 1 = 0 then wl
      else let row = int i div 8; col = int i mod 8 in
        if has_run b row col 4 then (fst wl OR push_bit i 1, snd wl)
        else if has_run b row col 3 then (fst wl, snd wl OR push_bit i 1)
        else wl)"

definition slowGetWinsAndLosses :: "Bitboard \<Rightarrow> Bitboard \<Rightarrow> Bitboard \<times> Bitboard" where
  "slowGetWinsAndLosses bb emptyBB =
     (let (w, l) = foldl (slow_cell bb emptyBB) (0, 0) [0..<64] in (w, l AND NOT w))"

section \<open>Bit counting (math/bits)\<close>

definition TrailingZeros64 :: "Bitboard \<Rightarrow> nat" where
  "TrailingZeros64 x = length (takeWhile (\<lambda>i. \<not> bit x i) [0..<64])"

definition OnesCount64 :: "Bitboard \<Rightarrow> nat" where
  "OnesCount64 x = length (filter (bit x) [0..<64])"

section \<open>Terminal detection and the step function: proofs\<close>

lemmas file_defs = FileA_def FileB_def FileC_def FileF_def FileG_def FileH_def

lemma indexOf_less: "x \<in> set xs \<Longrightarrow> indexOf x xs < length xs"
  by (induction xs) auto

lemma indexOf_nth: "x \<in> set xs \<Longrightarrow> xs ! indexOf x xs = x"
  by (induction xs) auto

lemma removeAt_indexOf: "x \<in> set xs \<Longrightarrow> removeAt (indexOf x xs) xs = remove1 x xs"
  by (induction xs) (auto simp: removeAt_def)

lemma length_removeAt: "i < length xs \<Longrightarrow> length (removeAt i xs) = length xs - 1"
  by (auto simp: removeAt_def)

lemma removeAt_next:
  assumes "i < length xs" "2 \<le> length xs"
  shows "removeAt i xs ! (if i \<ge> length (removeAt i xs) then 0 else i)
         = xs ! ((i + 1) mod length xs)"
proof (cases "Suc i = length xs")
  case True
  with assms have "0 < i" by linarith
  with True assms show ?thesis
    by (simp add: removeAt_def nth_append)
next
  case False
  with assms have lt: "Suc i < length xs" by linarith
  then have "\<not> i \<ge> length (removeAt i xs)"
    by (simp add: removeAt_def)
  moreover from lt have "removeAt i xs ! i = xs ! Suc i"
    by (simp add: removeAt_def nth_append)
  moreover from lt have "(i + 1) mod length xs = Suc i"
    by simp
  ultimately show ?thesis
    by simp
qed

text \<open>
  C3. When the stone just placed gives the mover a four-in-a-row and a three-in-a-row at
  once, SimulateStep returns the winning state: the mover is the winner, nobody is to move,
  and the mover stays in the list of players. The win test runs before the lose test.
\<close>

theorem SimulateStep_win_before_lose:
  assumes "Board_Set brd (ToIndex move) currentID = Inr nb"
    and "CheckWin (GetPlayerBoard nb currentID)"
    and "CheckLose (GetPlayerBoard nb currentID)"
  shows "SimulateStep brd players currentID move =
         Inr \<lparr>board = nb, nextPlayerID = -1, remainingPlayers = players, winnerID = currentID\<rparr>"
  using assms by (simp add: SimulateStep_def)

theorem SimulateStep_win_before_lose_witness:
  "Board_Set \<lparr>P1 = 7, P2 = 0, P3 = 0, Occupied = 7\<rparr> (ToIndex \<lparr>r = 0, c = 3\<rparr>) 0
     = Inr \<lparr>P1 = 15, P2 = 0, P3 = 0, Occupied = 15\<rparr>
   \<and> CheckWin (GetPlayerBoard \<lparr>P1 = 15, P2 = 0, P3 = 0, Occupied = 15\<rparr> 0)
   \<and> CheckLose (GetPlayerBoard \<lparr>P1 = 15, P2 = 0, P3 = 0, Occupied = 15\<rparr> 0)
   \<and> SimulateStep \<lparr>P1 = 7, P2 = 0, P3 = 0, Occupied = 7\<rparr> [0, 1, 2] 0 \<lparr>r = 0, c = 3\<rparr>
     = Inr \<lparr>board = \<lparr>P1 = 15, P2 = 0, P3 = 0, Occupied = 15\<rparr>, nextPlayerID = -1,
            remainingPlayers = [0, 1, 2], winnerID = 0\<rparr>"
proof -
  have a: "Board_Set \<lparr>P1 = 7, P2 = 0, P3 = 0, Occupied = 7\<rparr> (ToIndex \<lparr>r = 0, c = 3\<rparr>) 0
     = Inr \<lparr>P1 = 15, P2 = 0, P3 = 0, Occupied = 15\<rparr>"
    by (simp add: Board_Set_def ToIndex_def)
  have b: "CheckWin (GetPlayerBoard \<lparr>P1 = 15, P2 = 0, P3 = 0, Occupied = 15\<rparr> 0)"
    by (simp add: GetPlayerBoard_def CheckWin_def file_defs Let_def)
  have c: "CheckLose (GetPlayerBoard \<lparr>P1 = 15, P2 = 0, P3 = 0, Occupied = 15\<rparr> 0)"
    by (simp add: GetPlayerBoard_def CheckLose_def file_defs Let_def)
  from a b c SimulateStep_win_before_lose [OF a b c, of "[0, 1, 2]"] show ?thesis
    by simp
qed

text \<open>
  C4. In a state with at least two active players (a duplicate-free list holding the
  mover), a move that gives the mover a three-in-a-row and no four-in-a-row removes the
  mover from the list. If one player is left, that player is the winner and nobody
  is to move; otherwise nobody has won and the player to move is the one who followed the
  mover clockwise. From the empty board the moves P0 at 0, P1 at 8, P0 at 1, P1 at 9,
  P0 at 2, P1 at 10 eliminate P0 and then P1, ending with winner 2.
\<close>

theorem SimulateStep_elimination:
  "(distinct players \<and> currentID \<in> set players \<and> 2 \<le> length players \<and>
    Board_Set brd (ToIndex move) currentID = Inr nb \<and>
    \<not> CheckWin (GetPlayerBoard nb currentID) \<and> CheckLose (GetPlayerBoard nb currentID)
    \<longrightarrow> (\<exists>s. SimulateStep brd players currentID move = Inr s \<and> board s = nb \<and>
          remainingPlayers s = remove1 currentID players \<and>
          currentID \<notin> set (remainingPlayers s) \<and>
          (if length (remainingPlayers s) = 1
           then winnerID s = hd (remainingPlayers s) \<and> nextPlayerID s = -1
           else winnerID s = -1 \<and>
                nextPlayerID s =
                  players ! ((indexOf currentID players + 1) mod length players))))
   \<and> play emptyBoard [0, 1, 2] [(0, 0), (1, 8), (0, 1), (1, 9), (0, 2)]
       = Inr \<lparr>board = \<lparr>P1 = 7, P2 = 768, P3 = 0, Occupied = 775\<rparr>, nextPlayerID = 1,
              remainingPlayers = [1, 2], winnerID = -1\<rparr>
   \<and> play emptyBoard [0, 1, 2] [(0, 0), (1, 8), (0, 1), (1, 9), (0, 2), (1, 10)]
       = Inr \<lparr>board = \<lparr>P1 = 7, P2 = 1792, P3 = 0, Occupied = 1799\<rparr>, nextPlayerID = -1,
              remainingPlayers = [2], winnerID = 2\<rparr>"
proof (intro conjI impI)
  assume a: "distinct players \<and> currentID \<in> set players \<and> 2 \<le> length players \<and>
    Board_Set brd (ToIndex move) currentID = Inr nb \<and>
    \<not> CheckWin (GetPlayerBoard nb currentID) \<and> CheckLose (GetPlayerBoard nb currentID)"
  let ?i = "indexOf currentID players"
  let ?np = "removeAt ?i players"
  from a have i: "?i < length players" by (simp add: indexOf_less)
  from a have np: "?np = remove1 currentID players" by (simp add: removeAt_indexOf)
  from a i have len: "length ?np = length players - 1" by (simp add: length_removeAt)
  from a have ne: "players \<noteq> []" by auto
  from a len have ne': "?np \<noteq> []" by auto
  from a i have nxt: "?np ! (if ?i \<ge> length ?np then 0 else ?i)
                     = players ! ((?i + 1) mod length players)"
    by (simp add: removeAt_next)
  from a np have gone: "currentID \<notin> set ?np" by simp
  show "\<exists>s. SimulateStep brd players currentID move = Inr s \<and> board s = nb \<and>
          remainingPlayers s = remove1 currentID players \<and>
          currentID \<notin> set (remainingPlayers s) \<and>
          (if length (remainingPlayers s) = 1
           then winnerID s = hd (remainingPlayers s) \<and> nextPlayerID s = -1
           else winnerID s = -1 \<and>
                nextPlayerID s =
                  players ! ((indexOf currentID players + 1) mod length players))"
  proof (cases "length ?np = 1")
    case True
    then have "?np ! 0 = hd ?np" by (cases ?np) auto
    with a ne True np gone show ?thesis
      by (simp add: SimulateStep_def Let_def)
  next
    case False
    with a ne ne' np gone nxt show ?thesis
      by (simp add: SimulateStep_def Let_def)
  qed
next
  show "play emptyBoard [0, 1, 2] [(0, 0), (1, 8), (0, 1), (1, 9), (0, 2)]
       = Inr \<lparr>board = \<lparr>P1 = 7, P2 = 768, P3 = 0, Occupied = 775\<rparr>, nextPlayerID = 1,
              remainingPlayers = [1, 2], winnerID = -1\<rparr>"
    by (simp add: emptyBoard_def SimulateStep_def Board_Set_def ToIndex_def MoveFromIndex_def
        go_div_def go_mod_def GetPlayerBoard_def CheckWin_def CheckLose_def file_defs Let_def
        removeAt_def)
next
  show "play emptyBoard [0, 1, 2] [(0, 0), (1, 8), (0, 1), (1, 9), (0, 2), (1, 10)]
       = Inr \<lparr>board = \<lparr>P1 = 7, P2 = 1792, P3 = 0, Occupied = 1799\<rparr>, nextPlayerID = -1,
              remainingPlayers = [2], winnerID = 2\<rparr>"
    by (simp add: emptyBoard_def SimulateStep_def Board_Set_def ToIndex_def MoveFromIndex_def
        go_div_def go_mod_def GetPlayerBoard_def CheckWin_def CheckLose_def file_defs Let_def
        removeAt_def)
qed

theorem SimulateStep_elimination_witness:
  "distinct [0, 1, 2 :: int] \<and> (0 :: int) \<in> set [0, 1, 2] \<and> 2 \<le> length [0, 1, 2 :: int] \<and>
   Board_Set \<lparr>P1 = 3, P2 = 0, P3 = 0, Occupied = 3\<rparr> (ToIndex \<lparr>r = 0, c = 2\<rparr>) 0
     = Inr \<lparr>P1 = 7, P2 = 0, P3 = 0, Occupied = 7\<rparr> \<and>
   \<not> CheckWin (GetPlayerBoard \<lparr>P1 = 7, P2 = 0, P3 = 0, Occupied = 7\<rparr> 0) \<and>
   CheckLose (GetPlayerBoard \<lparr>P1 = 7, P2 = 0, P3 = 0, Occupied = 7\<rparr> 0) \<and>
   (\<exists>s. SimulateStep \<lparr>P1 = 3, P2 = 0, P3 = 0, Occupied = 3\<rparr> [0, 1, 2] 0 \<lparr>r = 0, c = 2\<rparr> = Inr s \<and>
        remainingPlayers s = [1, 2] \<and> winnerID s = -1 \<and> nextPlayerID s = 1)"
proof -
  have h: "distinct [0, 1, 2 :: int] \<and> (0 :: int) \<in> set [0, 1, 2] \<and> 2 \<le> length [0, 1, 2 :: int] \<and>
     Board_Set \<lparr>P1 = 3, P2 = 0, P3 = 0, Occupied = 3\<rparr> (ToIndex \<lparr>r = 0, c = 2\<rparr>) 0
       = Inr \<lparr>P1 = 7, P2 = 0, P3 = 0, Occupied = 7\<rparr> \<and>
     \<not> CheckWin (GetPlayerBoard \<lparr>P1 = 7, P2 = 0, P3 = 0, Occupied = 7\<rparr> 0) \<and>
     CheckLose (GetPlayerBoard \<lparr>P1 = 7, P2 = 0, P3 = 0, Occupied = 7\<rparr> 0)"
    by (simp add: Board_Set_def ToIndex_def GetPlayerBoard_def CheckWin_def CheckLose_def
        file_defs Let_def)
  from SimulateStep_elimination
    [of "[0, 1, 2]" 0 "\<lparr>P1 = 3, P2 = 0, P3 = 0, Occupied = 3\<rparr>" "\<lparr>r = 0, c = 2\<rparr>"
        "\<lparr>P1 = 7, P2 = 0, P3 = 0, Occupied = 7\<rparr>"] h
  have "\<exists>s. SimulateStep \<lparr>P1 = 3, P2 = 0, P3 = 0, Occupied = 3\<rparr> [0, 1, 2] 0 \<lparr>r = 0, c = 2\<rparr> = Inr s \<and>
        remainingPlayers s = [1, 2] \<and> winnerID s = -1 \<and> nextPlayerID s = 1"
    by auto
  with h show ?thesis by blast
qed

section \<open>The extractors agree with the enumeration: proofs\<close>

text \<open>
  \<open>cell_at t x y\<close>: the cell in row \<open>x\<close>, column \<open>y\<close> is on the board and set in \<open>t\<close>.
  All three extractors are compared cell by cell through it.
\<close>

definition cell_at :: "Bitboard \<Rightarrow> int \<Rightarrow> int \<Rightarrow> bool" where
  "cell_at t x y = (0 \<le> x \<and> x < 8 \<and> 0 \<le> y \<and> y < 8 \<and> bit t (nat (x * 8 + y)))"

lemma mask_bits_all:
  "\<forall>i\<in>{0..<64}.
     bit (0x7F7F7F7F7F7F7F7F :: Bitboard) i = (i mod 8 < 7) \<and>
     bit (0x3F3F3F3F3F3F3F3F :: Bitboard) i = (i mod 8 < 6) \<and>
     bit (0x1F1F1F1F1F1F1F1F :: Bitboard) i = (i mod 8 < 5) \<and>
     bit (0xFEFEFEFEFEFEFEFE :: Bitboard) i = (1 \<le> i mod 8) \<and>
     bit (0xFCFCFCFCFCFCFCFC :: Bitboard) i = (2 \<le> i mod 8) \<and>
     bit (0xF8F8F8F8F8F8F8F8 :: Bitboard) i = (3 \<le> i mod 8) \<and>
     bit (0xFFFFFFFFFFFFFFFF :: Bitboard) i"
  by code_simp

lemma cell_idx:
  assumes "0 \<le> x" "x < 8" "0 \<le> y" "y < 8"
  shows "nat (x * 8 + y) < 64" "nat (x * 8 + y) mod 8 = nat y"
proof -
  from assms show "nat (x * 8 + y) < 64" by linarith
  from assms have "(x * 8 + y) mod 8 = y" by simp
  with assms show "nat (x * 8 + y) mod 8 = nat y"
    by (metis add_nonneg_nonneg mult_nonneg_nonneg nat_mod_distrib zero_le_numeral nat_numeral)
qed

lemma cell_at_and: "cell_at (s AND t) x y = (cell_at s x y \<and> cell_at t x y)"
  by (auto simp: cell_at_def bit_and_iff)

lemma cell_at_or: "cell_at (s OR t) x y = (cell_at s x y \<or> cell_at t x y)"
  by (auto simp: cell_at_def bit_or_iff)

lemma cell_at_drop:
  assumes "0 \<le> 8 * dx + dy" "k = nat (8 * dx + dy)"
  shows "(cell_at (drop_bit k b) x y \<and> 0 \<le> y + dy \<and> y + dy < 8)
         = (cell_at b (x + dx) (y + dy) \<and> 0 \<le> x \<and> x < 8 \<and> 0 \<le> y \<and> y < 8)"
proof -
  have idx: "0 \<le> x \<Longrightarrow> 0 \<le> y \<Longrightarrow> k + nat (x * 8 + y) = nat ((x + dx) * 8 + (y + dy))"
    using assms by (simp add: algebra_simps nat_add_distrib [symmetric])
  show ?thesis
  proof (cases "0 \<le> x \<and> x < 8 \<and> 0 \<le> y \<and> y < 8 \<and> 0 \<le> y + dy \<and> y + dy < 8")
    case False
    then show ?thesis by (auto simp: cell_at_def)
  next
    case True
    then have eq: "bit (drop_bit k b) (nat (x * 8 + y)) = bit b (nat ((x + dx) * 8 + (y + dy)))"
      by (simp add: bit_drop_bit_eq idx)
    have "bit b (nat ((x + dx) * 8 + (y + dy))) \<Longrightarrow> 0 \<le> x + dx \<and> x + dx < 8"
    proof -
      assume "bit b (nat ((x + dx) * 8 + (y + dy)))"
      then have "nat ((x + dx) * 8 + (y + dy)) < 64"
        using bit_imp_le_length [of b] by fastforce
      moreover from True assms have "0 \<le> (x + dx) * 8 + (y + dy)"
        by (simp add: algebra_simps; linarith)
      ultimately show ?thesis using True by (simp add: algebra_simps; linarith)
    qed
    with True eq show ?thesis by (auto simp: cell_at_def)
  qed
qed

lemma cell_at_push:
  assumes "0 \<le> 8 * dx + dy" "k = nat (8 * dx + dy)"
  shows "(cell_at (push_bit k t) x y \<and> 0 \<le> y - dy \<and> y - dy < 8)
         = (cell_at t (x - dx) (y - dy) \<and> 0 \<le> x \<and> x < 8 \<and> 0 \<le> y \<and> y < 8)"
proof (cases "0 \<le> x \<and> x < 8 \<and> 0 \<le> y \<and> y < 8 \<and> 0 \<le> y - dy \<and> y - dy < 8")
  case False
  then show ?thesis by (auto simp: cell_at_def)
next
  case True
  then have lt: "nat (x * 8 + y) < 64" by linarith
  have eq: "bit (push_bit k t) (nat (x * 8 + y))
            = (k \<le> nat (x * 8 + y) \<and> bit t (nat (x * 8 + y) - k))"
    using lt by (auto simp: bit_push_bit_iff)
  show ?thesis
  proof (cases "k \<le> nat (x * 8 + y)")
    case le: True
    with True assms have idx: "nat (x * 8 + y) - k = nat ((x - dx) * 8 + (y - dy))"
      by (simp add: algebra_simps nat_diff_distrib' [symmetric])
    from le True assms have "0 \<le> (x - dx) * 8 + (y - dy)"
      by (simp add: algebra_simps; linarith)
    with True have "0 \<le> x - dx" by (simp add: algebra_simps; linarith)
    moreover from True assms have "x - dx < 8" by (simp add: algebra_simps; linarith)
    ultimately show ?thesis using True eq le idx by (auto simp: cell_at_def)
  next
    case gt: False
    with True assms have "(x - dx) * 8 + (y - dy) < 0"
      by (simp add: algebra_simps; linarith)
    with True have "x - dx < 0" by (simp add: algebra_simps; linarith)
    with gt eq True show ?thesis by (auto simp: cell_at_def)
  qed
qed

lemma cell_at_inb: "cell_at t x y \<Longrightarrow> 0 \<le> x \<and> x < 8 \<and> 0 \<le> y \<and> y < 8"
  by (simp add: cell_at_def)

lemma bit_cell_at:
  assumes "i < 64"
  shows "bit t i = cell_at t (int i div 8) (int i mod 8)"
proof -
  from assms have "0 \<le> int i div 8" "int i div 8 < 8" by presburger+
  then show ?thesis by (simp add: cell_at_def)
qed

lemma cell_at_masks:
  "cell_at (0x7F7F7F7F7F7F7F7F :: Bitboard) x y = (0 \<le> x \<and> x < 8 \<and> 0 \<le> y \<and> y < 7)"
  "cell_at (0x3F3F3F3F3F3F3F3F :: Bitboard) x y = (0 \<le> x \<and> x < 8 \<and> 0 \<le> y \<and> y < 6)"
  "cell_at (0x1F1F1F1F1F1F1F1F :: Bitboard) x y = (0 \<le> x \<and> x < 8 \<and> 0 \<le> y \<and> y < 5)"
  "cell_at (0xFEFEFEFEFEFEFEFE :: Bitboard) x y = (0 \<le> x \<and> x < 8 \<and> 1 \<le> y \<and> y < 8)"
  "cell_at (0xFCFCFCFCFCFCFCFC :: Bitboard) x y = (0 \<le> x \<and> x < 8 \<and> 2 \<le> y \<and> y < 8)"
  "cell_at (0xF8F8F8F8F8F8F8F8 :: Bitboard) x y = (0 \<le> x \<and> x < 8 \<and> 3 \<le> y \<and> y < 8)"
  "cell_at (0xFFFFFFFFFFFFFFFF :: Bitboard) x y = (0 \<le> x \<and> x < 8 \<and> 0 \<le> y \<and> y < 8)"
proof -
  have m: "nat (x * 8 + y) \<in> {0..<64} \<and> nat (x * 8 + y) mod 8 = nat y"
    if "0 \<le> x \<and> x < 8 \<and> 0 \<le> y \<and> y < 8"
    using that cell_idx [of x y] by simp
  show "cell_at (0x7F7F7F7F7F7F7F7F :: Bitboard) x y = (0 \<le> x \<and> x < 8 \<and> 0 \<le> y \<and> y < 7)"
    using m mask_bits_all by (auto simp: cell_at_def)
  show "cell_at (0x3F3F3F3F3F3F3F3F :: Bitboard) x y = (0 \<le> x \<and> x < 8 \<and> 0 \<le> y \<and> y < 6)"
    using m mask_bits_all by (auto simp: cell_at_def)
  show "cell_at (0x1F1F1F1F1F1F1F1F :: Bitboard) x y = (0 \<le> x \<and> x < 8 \<and> 0 \<le> y \<and> y < 5)"
    using m mask_bits_all by (auto simp: cell_at_def)
  show "cell_at (0xFEFEFEFEFEFEFEFE :: Bitboard) x y = (0 \<le> x \<and> x < 8 \<and> 1 \<le> y \<and> y < 8)"
    using m mask_bits_all by (auto simp: cell_at_def)
  show "cell_at (0xFCFCFCFCFCFCFCFC :: Bitboard) x y = (0 \<le> x \<and> x < 8 \<and> 2 \<le> y \<and> y < 8)"
    using m mask_bits_all by (auto simp: cell_at_def)
  show "cell_at (0xF8F8F8F8F8F8F8F8 :: Bitboard) x y = (0 \<le> x \<and> x < 8 \<and> 3 \<le> y \<and> y < 8)"
    using m mask_bits_all by (auto simp: cell_at_def)
  show "cell_at (0xFFFFFFFFFFFFFFFF :: Bitboard) x y = (0 \<le> x \<and> x < 8 \<and> 0 \<le> y \<and> y < 8)"
    using m mask_bits_all by (auto simp: cell_at_def)
qed

lemma go_masks:
  "NOT FileH = 0x7F7F7F7F7F7F7F7F"
  "NOT (FileH OR FileG) = 0x3F3F3F3F3F3F3F3F"
  "NOT (FileH OR FileG OR FileF) = 0x1F1F1F1F1F1F1F1F"
  "NOT FileA = 0xFEFEFEFEFEFEFEFE"
  "NOT (FileA OR FileB) = 0xFCFCFCFCFCFCFCFC"
  "NOT (FileA OR FileB OR FileC) = 0xF8F8F8F8F8F8F8F8"
  by (simp_all add: file_defs)

text \<open>A masked shift, kept folded so that the lemmas below see it as one term.\<close>

definition shr :: "nat \<Rightarrow> Bitboard \<Rightarrow> Bitboard \<Rightarrow> Bitboard" where
  "shr k m b = drop_bit k b AND m"

definition shl :: "nat \<Rightarrow> Bitboard \<Rightarrow> Bitboard \<Rightarrow> Bitboard" where
  "shl k m b = push_bit k b AND m"

text \<open>
  A masked right shift by \<open>8 * dx + dy\<close> reads the cell \<open>(dx, dy)\<close> ahead, provided the
  mask keeps the columns from which that cell is on the board; a masked left shift reads the
  cell behind.
\<close>

lemma lane_right:
  assumes "0 \<le> 8 * dx + dy" "k = nat (8 * dx + dy)"
    and "\<And>x y. cell_at m x y = (0 \<le> x \<and> x < 8 \<and> 0 \<le> y \<and> y < 8 \<and> 0 \<le> y + dy \<and> y + dy < 8)"
  shows "cell_at (shr k m b) x y
         = (cell_at b (x + dx) (y + dy) \<and> 0 \<le> x \<and> x < 8 \<and> 0 \<le> y \<and> y < 8)"
  using cell_at_drop [OF assms(1,2), of b x y] assms(3) [of x y]
  by (auto simp: shr_def cell_at_and dest: cell_at_inb)

lemma lane_left:
  assumes "0 \<le> 8 * dx + dy" "k = nat (8 * dx + dy)"
    and "\<And>x y. cell_at m x y = (0 \<le> x \<and> x < 8 \<and> 0 \<le> y \<and> y < 8 \<and> 0 \<le> y - dy \<and> y - dy < 8)"
  shows "cell_at (shl k m t) x y
         = (cell_at t (x - dx) (y - dy) \<and> 0 \<le> x \<and> x < 8 \<and> 0 \<le> y \<and> y < 8)"
  using cell_at_push [OF assms(1,2), of t x y] assms(3) [of x y]
  by (auto simp: shl_def cell_at_and dest: cell_at_inb)

lemma lane_h_r1:
  "cell_at (shr 1 0x7F7F7F7F7F7F7F7F b) x y = (cell_at b x (y + 1) \<and> 0 \<le> x \<and> x < 8 \<and> 0 \<le> y \<and> y < 8)"
proof -
  have "cell_at (shr 1 0x7F7F7F7F7F7F7F7F b) x y = (cell_at b (x + 0) (y + 1) \<and> 0 \<le> x \<and> x < 8 \<and> 0 \<le> y \<and> y < 8)"
    by (rule lane_right) (auto simp: cell_at_masks)
  then show ?thesis by simp
qed

lemma lane_h_l1:
  "cell_at (shl 1 0xFEFEFEFEFEFEFEFE b) x y = (cell_at b x (y - 1) \<and> 0 \<le> x \<and> x < 8 \<and> 0 \<le> y \<and> y < 8)"
proof -
  have "cell_at (shl 1 0xFEFEFEFEFEFEFEFE b) x y = (cell_at b (x - 0) (y - 1) \<and> 0 \<le> x \<and> x < 8 \<and> 0 \<le> y \<and> y < 8)"
    by (rule lane_left) (auto simp: cell_at_masks)
  then show ?thesis by simp
qed

lemma lane_h_r2:
  "cell_at (shr 2 0x3F3F3F3F3F3F3F3F b) x y = (cell_at b x (y + 2) \<and> 0 \<le> x \<and> x < 8 \<and> 0 \<le> y \<and> y < 8)"
proof -
  have "cell_at (shr 2 0x3F3F3F3F3F3F3F3F b) x y = (cell_at b (x + 0) (y + 2) \<and> 0 \<le> x \<and> x < 8 \<and> 0 \<le> y \<and> y < 8)"
    by (rule lane_right) (auto simp: cell_at_masks)
  then show ?thesis by simp
qed

lemma lane_h_l2:
  "cell_at (shl 2 0xFCFCFCFCFCFCFCFC b) x y = (cell_at b x (y - 2) \<and> 0 \<le> x \<and> x < 8 \<and> 0 \<le> y \<and> y < 8)"
proof -
  have "cell_at (shl 2 0xFCFCFCFCFCFCFCFC b) x y = (cell_at b (x - 0) (y - 2) \<and> 0 \<le> x \<and> x < 8 \<and> 0 \<le> y \<and> y < 8)"
    by (rule lane_left) (auto simp: cell_at_masks)
  then show ?thesis by simp
qed

lemma lane_h_r3:
  "cell_at (shr 3 0x1F1F1F1F1F1F1F1F b) x y = (cell_at b x (y + 3) \<and> 0 \<le> x \<and> x < 8 \<and> 0 \<le> y \<and> y < 8)"
proof -
  have "cell_at (shr 3 0x1F1F1F1F1F1F1F1F b) x y = (cell_at b (x + 0) (y + 3) \<and> 0 \<le> x \<and> x < 8 \<and> 0 \<le> y \<and> y < 8)"
    by (rule lane_right) (auto simp: cell_at_masks)
  then show ?thesis by simp
qed

lemma lane_h_l3:
  "cell_at (shl 3 0xF8F8F8F8F8F8F8F8 b) x y = (cell_at b x (y - 3) \<and> 0 \<le> x \<and> x < 8 \<and> 0 \<le> y \<and> y < 8)"
proof -
  have "cell_at (shl 3 0xF8F8F8F8F8F8F8F8 b) x y = (cell_at b (x - 0) (y - 3) \<and> 0 \<le> x \<and> x < 8 \<and> 0 \<le> y \<and> y < 8)"
    by (rule lane_left) (auto simp: cell_at_masks)
  then show ?thesis by simp
qed

lemma lane_v_r1:
  "cell_at (shr 8 0xFFFFFFFFFFFFFFFF b) x y = (cell_at b (x + 1) y \<and> 0 \<le> x \<and> x < 8 \<and> 0 \<le> y \<and> y < 8)"
proof -
  have "cell_at (shr 8 0xFFFFFFFFFFFFFFFF b) x y = (cell_at b (x + 1) (y + 0) \<and> 0 \<le> x \<and> x < 8 \<and> 0 \<le> y \<and> y < 8)"
    by (rule lane_right) (auto simp: cell_at_masks)
  then show ?thesis by simp
qed

lemma lane_v_l1:
  "cell_at (shl 8 0xFFFFFFFFFFFFFFFF b) x y = (cell_at b (x - 1) y \<and> 0 \<le> x \<and> x < 8 \<and> 0 \<le> y \<and> y < 8)"
proof -
  have "cell_at (shl 8 0xFFFFFFFFFFFFFFFF b) x y = (cell_at b (x - 1) (y - 0) \<and> 0 \<le> x \<and> x < 8 \<and> 0 \<le> y \<and> y < 8)"
    by (rule lane_left) (auto simp: cell_at_masks)
  then show ?thesis by simp
qed

lemma lane_v_r2:
  "cell_at (shr 16 0xFFFFFFFFFFFFFFFF b) x y = (cell_at b (x + 2) y \<and> 0 \<le> x \<and> x < 8 \<and> 0 \<le> y \<and> y < 8)"
proof -
  have "cell_at (shr 16 0xFFFFFFFFFFFFFFFF b) x y = (cell_at b (x + 2) (y + 0) \<and> 0 \<le> x \<and> x < 8 \<and> 0 \<le> y \<and> y < 8)"
    by (rule lane_right) (auto simp: cell_at_masks)
  then show ?thesis by simp
qed

lemma lane_v_l2:
  "cell_at (shl 16 0xFFFFFFFFFFFFFFFF b) x y = (cell_at b (x - 2) y \<and> 0 \<le> x \<and> x < 8 \<and> 0 \<le> y \<and> y < 8)"
proof -
  have "cell_at (shl 16 0xFFFFFFFFFFFFFFFF b) x y = (cell_at b (x - 2) (y - 0) \<and> 0 \<le> x \<and> x < 8 \<and> 0 \<le> y \<and> y < 8)"
    by (rule lane_left) (auto simp: cell_at_masks)
  then show ?thesis by simp
qed

lemma lane_v_r3:
  "cell_at (shr 24 0xFFFFFFFFFFFFFFFF b) x y = (cell_at b (x + 3) y \<and> 0 \<le> x \<and> x < 8 \<and> 0 \<le> y \<and> y < 8)"
proof -
  have "cell_at (shr 24 0xFFFFFFFFFFFFFFFF b) x y = (cell_at b (x + 3) (y + 0) \<and> 0 \<le> x \<and> x < 8 \<and> 0 \<le> y \<and> y < 8)"
    by (rule lane_right) (auto simp: cell_at_masks)
  then show ?thesis by simp
qed

lemma lane_v_l3:
  "cell_at (shl 24 0xFFFFFFFFFFFFFFFF b) x y = (cell_at b (x - 3) y \<and> 0 \<le> x \<and> x < 8 \<and> 0 \<le> y \<and> y < 8)"
proof -
  have "cell_at (shl 24 0xFFFFFFFFFFFFFFFF b) x y = (cell_at b (x - 3) (y - 0) \<and> 0 \<le> x \<and> x < 8 \<and> 0 \<le> y \<and> y < 8)"
    by (rule lane_left) (auto simp: cell_at_masks)
  then show ?thesis by simp
qed

lemma lane_d_r1:
  "cell_at (shr 9 0x7F7F7F7F7F7F7F7F b) x y = (cell_at b (x + 1) (y + 1) \<and> 0 \<le> x \<and> x < 8 \<and> 0 \<le> y \<and> y < 8)"
proof -
  have "cell_at (shr 9 0x7F7F7F7F7F7F7F7F b) x y = (cell_at b (x + 1) (y + 1) \<and> 0 \<le> x \<and> x < 8 \<and> 0 \<le> y \<and> y < 8)"
    by (rule lane_right) (auto simp: cell_at_masks)
  then show ?thesis by simp
qed

lemma lane_d_l1:
  "cell_at (shl 9 0xFEFEFEFEFEFEFEFE b) x y = (cell_at b (x - 1) (y - 1) \<and> 0 \<le> x \<and> x < 8 \<and> 0 \<le> y \<and> y < 8)"
proof -
  have "cell_at (shl 9 0xFEFEFEFEFEFEFEFE b) x y = (cell_at b (x - 1) (y - 1) \<and> 0 \<le> x \<and> x < 8 \<and> 0 \<le> y \<and> y < 8)"
    by (rule lane_left) (auto simp: cell_at_masks)
  then show ?thesis by simp
qed

lemma lane_d_r2:
  "cell_at (shr 18 0x3F3F3F3F3F3F3F3F b) x y = (cell_at b (x + 2) (y + 2) \<and> 0 \<le> x \<and> x < 8 \<and> 0 \<le> y \<and> y < 8)"
proof -
  have "cell_at (shr 18 0x3F3F3F3F3F3F3F3F b) x y = (cell_at b (x + 2) (y + 2) \<and> 0 \<le> x \<and> x < 8 \<and> 0 \<le> y \<and> y < 8)"
    by (rule lane_right) (auto simp: cell_at_masks)
  then show ?thesis by simp
qed

lemma lane_d_l2:
  "cell_at (shl 18 0xFCFCFCFCFCFCFCFC b) x y = (cell_at b (x - 2) (y - 2) \<and> 0 \<le> x \<and> x < 8 \<and> 0 \<le> y \<and> y < 8)"
proof -
  have "cell_at (shl 18 0xFCFCFCFCFCFCFCFC b) x y = (cell_at b (x - 2) (y - 2) \<and> 0 \<le> x \<and> x < 8 \<and> 0 \<le> y \<and> y < 8)"
    by (rule lane_left) (auto simp: cell_at_masks)
  then show ?thesis by simp
qed

lemma lane_d_r3:
  "cell_at (shr 27 0x1F1F1F1F1F1F1F1F b) x y = (cell_at b (x + 3) (y + 3) \<and> 0 \<le> x \<and> x < 8 \<and> 0 \<le> y \<and> y < 8)"
proof -
  have "cell_at (shr 27 0x1F1F1F1F1F1F1F1F b) x y = (cell_at b (x + 3) (y + 3) \<and> 0 \<le> x \<and> x < 8 \<and> 0 \<le> y \<and> y < 8)"
    by (rule lane_right) (auto simp: cell_at_masks)
  then show ?thesis by simp
qed

lemma lane_d_l3:
  "cell_at (shl 27 0xF8F8F8F8F8F8F8F8 b) x y = (cell_at b (x - 3) (y - 3) \<and> 0 \<le> x \<and> x < 8 \<and> 0 \<le> y \<and> y < 8)"
proof -
  have "cell_at (shl 27 0xF8F8F8F8F8F8F8F8 b) x y = (cell_at b (x - 3) (y - 3) \<and> 0 \<le> x \<and> x < 8 \<and> 0 \<le> y \<and> y < 8)"
    by (rule lane_left) (auto simp: cell_at_masks)
  then show ?thesis by simp
qed

lemma lane_a_r1:
  "cell_at (shr 7 0xFEFEFEFEFEFEFEFE b) x y = (cell_at b (x + 1) (y - 1) \<and> 0 \<le> x \<and> x < 8 \<and> 0 \<le> y \<and> y < 8)"
proof -
  have "cell_at (shr 7 0xFEFEFEFEFEFEFEFE b) x y = (cell_at b (x + 1) (y + (- 1)) \<and> 0 \<le> x \<and> x < 8 \<and> 0 \<le> y \<and> y < 8)"
    by (rule lane_right) (auto simp: cell_at_masks)
  then show ?thesis by simp
qed

lemma lane_a_l1:
  "cell_at (shl 7 0x7F7F7F7F7F7F7F7F b) x y = (cell_at b (x - 1) (y + 1) \<and> 0 \<le> x \<and> x < 8 \<and> 0 \<le> y \<and> y < 8)"
proof -
  have "cell_at (shl 7 0x7F7F7F7F7F7F7F7F b) x y = (cell_at b (x - 1) (y - (- 1)) \<and> 0 \<le> x \<and> x < 8 \<and> 0 \<le> y \<and> y < 8)"
    by (rule lane_left) (auto simp: cell_at_masks)
  then show ?thesis by simp
qed

lemma lane_a_r2:
  "cell_at (shr 14 0xFCFCFCFCFCFCFCFC b) x y = (cell_at b (x + 2) (y - 2) \<and> 0 \<le> x \<and> x < 8 \<and> 0 \<le> y \<and> y < 8)"
proof -
  have "cell_at (shr 14 0xFCFCFCFCFCFCFCFC b) x y = (cell_at b (x + 2) (y + (- 2)) \<and> 0 \<le> x \<and> x < 8 \<and> 0 \<le> y \<and> y < 8)"
    by (rule lane_right) (auto simp: cell_at_masks)
  then show ?thesis by simp
qed

lemma lane_a_l2:
  "cell_at (shl 14 0x3F3F3F3F3F3F3F3F b) x y = (cell_at b (x - 2) (y + 2) \<and> 0 \<le> x \<and> x < 8 \<and> 0 \<le> y \<and> y < 8)"
proof -
  have "cell_at (shl 14 0x3F3F3F3F3F3F3F3F b) x y = (cell_at b (x - 2) (y - (- 2)) \<and> 0 \<le> x \<and> x < 8 \<and> 0 \<le> y \<and> y < 8)"
    by (rule lane_left) (auto simp: cell_at_masks)
  then show ?thesis by simp
qed

lemma lane_a_r3:
  "cell_at (shr 21 0xF8F8F8F8F8F8F8F8 b) x y = (cell_at b (x + 3) (y - 3) \<and> 0 \<le> x \<and> x < 8 \<and> 0 \<le> y \<and> y < 8)"
proof -
  have "cell_at (shr 21 0xF8F8F8F8F8F8F8F8 b) x y = (cell_at b (x + 3) (y + (- 3)) \<and> 0 \<le> x \<and> x < 8 \<and> 0 \<le> y \<and> y < 8)"
    by (rule lane_right) (auto simp: cell_at_masks)
  then show ?thesis by simp
qed

lemma lane_a_l3:
  "cell_at (shl 21 0x1F1F1F1F1F1F1F1F b) x y = (cell_at b (x - 3) (y + 3) \<and> 0 \<le> x \<and> x < 8 \<and> 0 \<le> y \<and> y < 8)"
proof -
  have "cell_at (shl 21 0x1F1F1F1F1F1F1F1F b) x y = (cell_at b (x - 3) (y - (- 3)) \<and> 0 \<le> x \<and> x < 8 \<and> 0 \<le> y \<and> y < 8)"
    by (rule lane_left) (auto simp: cell_at_masks)
  then show ?thesis by simp
qed

lemma shift_v_r1:
  "cell_at (drop_bit 8 b) x y = (cell_at b (x + 1) y \<and> 0 \<le> x \<and> x < 8 \<and> 0 \<le> y \<and> y < 8)"
  using cell_at_drop [of 1 0 8 b x y] by (auto dest: cell_at_inb)

lemma shift_v_l1:
  "cell_at (push_bit 8 b) x y = (cell_at b (x - 1) y \<and> 0 \<le> x \<and> x < 8 \<and> 0 \<le> y \<and> y < 8)"
  using cell_at_push [of 1 0 8 b x y] by (auto dest: cell_at_inb)

lemma shift_v_r2:
  "cell_at (drop_bit 16 b) x y = (cell_at b (x + 2) y \<and> 0 \<le> x \<and> x < 8 \<and> 0 \<le> y \<and> y < 8)"
  using cell_at_drop [of 2 0 16 b x y] by (auto dest: cell_at_inb)

lemma shift_v_l2:
  "cell_at (push_bit 16 b) x y = (cell_at b (x - 2) y \<and> 0 \<le> x \<and> x < 8 \<and> 0 \<le> y \<and> y < 8)"
  using cell_at_push [of 2 0 16 b x y] by (auto dest: cell_at_inb)

lemma shift_v_r3:
  "cell_at (drop_bit 24 b) x y = (cell_at b (x + 3) y \<and> 0 \<le> x \<and> x < 8 \<and> 0 \<le> y \<and> y < 8)"
  using cell_at_drop [of 3 0 24 b x y] by (auto dest: cell_at_inb)

lemma shift_v_l3:
  "cell_at (push_bit 24 b) x y = (cell_at b (x - 3) y \<and> 0 \<le> x \<and> x < 8 \<and> 0 \<le> y \<and> y < 8)"
  using cell_at_push [of 3 0 24 b x y] by (auto dest: cell_at_inb)

lemmas lane_simps =
  lane_h_r1 lane_h_l1 lane_h_r2 lane_h_l2 lane_h_r3 lane_h_l3
  lane_v_r1 lane_v_l1 lane_v_r2 lane_v_l2 lane_v_r3 lane_v_l3
  lane_d_r1 lane_d_l1 lane_d_r2 lane_d_l2 lane_d_r3 lane_d_l3
  lane_a_r1 lane_a_l1 lane_a_r2 lane_a_l2 lane_a_r3 lane_a_l3
  shift_v_r1 shift_v_l1 shift_v_r2 shift_v_l2 shift_v_r3 shift_v_l3

subsection \<open>The enumeration, cell by cell\<close>

lemma upto_lists:
  "[- 3..0] = [- 3, - 2, - 1, 0 :: int]" "[0..3] = [0, 1, 2, 3 :: int]"
  "[- 2..0] = [- 2, - 1, 0 :: int]" "[0..2] = [0, 1, 2 :: int]"
  by (simp_all add: upto.simps)

lemma filter_all: "(length (filter P xs) = length xs) = (\<forall>x\<in>set xs. P x)"
proof (induction xs)
  case Nil
  then show ?case by simp
next
  case (Cons a xs)
  have le: "length (filter P xs) \<le> length xs" by simp
  show ?case
  proof (cases "P a")
    case True
    with Cons show ?thesis by simp
  next
    case False
    from le have "length (filter P xs) \<noteq> Suc (length xs)" by linarith
    with False show ?thesis by simp
  qed
qed

lemma counted_0:
  "0 \<le> x \<and> x < 8 \<and> 0 \<le> y \<and> y < 8 \<Longrightarrow> counted b x y dir 0"
  by (simp add: counted_def)

lemma counted_cell:
  "0 \<le> x \<and> x < 8 \<and> 0 \<le> y \<and> y < 8 \<Longrightarrow> t * dx \<noteq> 0 \<or> t * dy \<noteq> 0 \<Longrightarrow>
   counted b x y (dx, dy) t = cell_at b (x + t * dx) (y + t * dy)"
  by (auto simp: counted_def cell_at_def Let_def)

lemma run4:
  "(run_count b x y dir so 4 = nat 4)
   = (counted b x y dir so \<and> counted b x y dir (so + 1) \<and> counted b x y dir (so + 2) \<and>
      counted b x y dir (so + 3))"
proof -
  have l: "[0..4 - 1] = [0, 1, 2, 3 :: int]" by (simp add: upto_lists)
  have n: "nat 4 = length [0, 1, 2, 3 :: int]" by simp
  show ?thesis unfolding run_count_def l n filter_all by simp
qed

lemma run3:
  "(run_count b x y dir so 3 = nat 3)
   = (counted b x y dir so \<and> counted b x y dir (so + 1) \<and> counted b x y dir (so + 2))"
proof -
  have l: "[0..3 - 1] = [0, 1, 2 :: int]" by (simp add: upto_lists)
  have n: "nat 3 = length [0, 1, 2 :: int]" by simp
  show ?thesis unfolding run_count_def l n filter_all by simp
qed

definition four_along :: "Bitboard \<Rightarrow> int \<Rightarrow> int \<Rightarrow> int \<times> int \<Rightarrow> bool" where
  "four_along b x y dir =
     (\<exists>so\<in>{- 3, - 2, - 1, 0}.
        counted b x y dir so \<and> counted b x y dir (so + 1) \<and> counted b x y dir (so + 2) \<and>
        counted b x y dir (so + 3))"

definition three_along :: "Bitboard \<Rightarrow> int \<Rightarrow> int \<Rightarrow> int \<times> int \<Rightarrow> bool" where
  "three_along b x y dir =
     (\<exists>so\<in>{- 2, - 1, 0}.
        counted b x y dir so \<and> counted b x y dir (so + 1) \<and> counted b x y dir (so + 2))"

lemma has_run4:
  "has_run b x y 4 =
     (four_along b x y (0, 1) \<or> four_along b x y (1, 0) \<or> four_along b x y (1, 1) \<or>
      four_along b x y (1, - 1))"
proof -
  have l: "[- (4 - 1)..0] = [- 3, - 2, - 1, 0 :: int]" by (simp add: upto_lists)
  show ?thesis unfolding has_run_def l run4 four_along_def directions_def
    by (simp add: list_ex_iff)
qed

lemma has_run3:
  "has_run b x y 3 =
     (three_along b x y (0, 1) \<or> three_along b x y (1, 0) \<or> three_along b x y (1, 1) \<or>
      three_along b x y (1, - 1))"
proof -
  have l: "[- (3 - 1)..0] = [- 2, - 1, 0 :: int]" by (simp add: upto_lists)
  show ?thesis unfolding has_run_def l run3 three_along_def directions_def
    by (simp add: list_ex_iff)
qed

lemma four_h:
  assumes "0 \<le> x \<and> x < 8 \<and> 0 \<le> y \<and> y < 8"
  shows "four_along b x y (0, 1) =
    ((cell_at b x (y + 1) \<and> cell_at b x (y + 2) \<and> (cell_at b x (y + 3) \<or> cell_at b x (y - 1))) \<or>
     (cell_at b x (y - 1) \<and> cell_at b x (y - 2) \<and> (cell_at b x (y + 1) \<or> cell_at b x (y - 3))))"
  unfolding four_along_def using assms
  by (simp add: counted_0 counted_cell) blast

lemma three_h:
  assumes "0 \<le> x \<and> x < 8 \<and> 0 \<le> y \<and> y < 8"
  shows "three_along b x y (0, 1) =
    ((cell_at b x (y - 1) \<and> cell_at b x (y - 2)) \<or> (cell_at b x (y + 1) \<and> cell_at b x (y + 2)) \<or>
     (cell_at b x (y + 1) \<and> cell_at b x (y - 1)))"
  unfolding three_along_def using assms
  by (simp add: counted_0 counted_cell) blast

lemma four_v:
  assumes "0 \<le> x \<and> x < 8 \<and> 0 \<le> y \<and> y < 8"
  shows "four_along b x y (1, 0) =
    ((cell_at b (x + 1) y \<and> cell_at b (x + 2) y \<and> (cell_at b (x + 3) y \<or> cell_at b (x - 1) y)) \<or>
     (cell_at b (x - 1) y \<and> cell_at b (x - 2) y \<and> (cell_at b (x + 1) y \<or> cell_at b (x - 3) y)))"
  unfolding four_along_def using assms
  by (simp add: counted_0 counted_cell) blast

lemma three_v:
  assumes "0 \<le> x \<and> x < 8 \<and> 0 \<le> y \<and> y < 8"
  shows "three_along b x y (1, 0) =
    ((cell_at b (x - 1) y \<and> cell_at b (x - 2) y) \<or> (cell_at b (x + 1) y \<and> cell_at b (x + 2) y) \<or>
     (cell_at b (x + 1) y \<and> cell_at b (x - 1) y))"
  unfolding three_along_def using assms
  by (simp add: counted_0 counted_cell) blast

lemma four_d:
  assumes "0 \<le> x \<and> x < 8 \<and> 0 \<le> y \<and> y < 8"
  shows "four_along b x y (1, 1) =
    ((cell_at b (x + 1) (y + 1) \<and> cell_at b (x + 2) (y + 2) \<and> (cell_at b (x + 3) (y + 3) \<or> cell_at b (x - 1) (y - 1))) \<or>
     (cell_at b (x - 1) (y - 1) \<and> cell_at b (x - 2) (y - 2) \<and> (cell_at b (x + 1) (y + 1) \<or> cell_at b (x - 3) (y - 3))))"
  unfolding four_along_def using assms
  by (simp add: counted_0 counted_cell) blast

lemma three_d:
  assumes "0 \<le> x \<and> x < 8 \<and> 0 \<le> y \<and> y < 8"
  shows "three_along b x y (1, 1) =
    ((cell_at b (x - 1) (y - 1) \<and> cell_at b (x - 2) (y - 2)) \<or> (cell_at b (x + 1) (y + 1) \<and> cell_at b (x + 2) (y + 2)) \<or>
     (cell_at b (x + 1) (y + 1) \<and> cell_at b (x - 1) (y - 1)))"
  unfolding three_along_def using assms
  by (simp add: counted_0 counted_cell) blast

lemma four_a:
  assumes "0 \<le> x \<and> x < 8 \<and> 0 \<le> y \<and> y < 8"
  shows "four_along b x y (1, - 1) =
    ((cell_at b (x + 1) (y - 1) \<and> cell_at b (x + 2) (y - 2) \<and> (cell_at b (x + 3) (y - 3) \<or> cell_at b (x - 1) (y + 1))) \<or>
     (cell_at b (x - 1) (y + 1) \<and> cell_at b (x - 2) (y + 2) \<and> (cell_at b (x + 1) (y - 1) \<or> cell_at b (x - 3) (y + 3))))"
  unfolding four_along_def using assms
  by (simp add: counted_0 counted_cell) blast

lemma three_a:
  assumes "0 \<le> x \<and> x < 8 \<and> 0 \<le> y \<and> y < 8"
  shows "three_along b x y (1, - 1) =
    ((cell_at b (x - 1) (y + 1) \<and> cell_at b (x - 2) (y + 2)) \<or> (cell_at b (x + 1) (y - 1) \<and> cell_at b (x + 2) (y - 2)) \<or>
     (cell_at b (x + 1) (y - 1) \<and> cell_at b (x - 1) (y + 1)))"
  unfolding three_along_def using assms
  by (simp add: counted_0 counted_cell) blast

subsection \<open>The four-lane kernel, cell by cell\<close>

definition lane_w :: "Bitboard \<Rightarrow> Bitboard \<Rightarrow> Bitboard \<Rightarrow> Bitboard \<Rightarrow> Bitboard \<Rightarrow> Bitboard \<Rightarrow> Bitboard" where
  "lane_w r1 r2 r3 l1 l2 l3 = ((r1 AND r2) AND (r3 OR l1)) OR ((l1 AND l2) AND (r1 OR l3))"

definition lane_l :: "Bitboard \<Rightarrow> Bitboard \<Rightarrow> Bitboard \<Rightarrow> Bitboard \<Rightarrow> Bitboard" where
  "lane_l r1 r2 l1 l2 = (l1 AND l2) OR ((r1 AND r2) OR (r1 AND l1))"

definition win_h :: "Bitboard \<Rightarrow> Bitboard" where
  "win_h b = lane_w (shr 1 0x7F7F7F7F7F7F7F7F b) (shr 2 0x3F3F3F3F3F3F3F3F b)
                 (shr 3 0x1F1F1F1F1F1F1F1F b) (shl 1 0xFEFEFEFEFEFEFEFE b)
                 (shl 2 0xFCFCFCFCFCFCFCFC b) (shl 3 0xF8F8F8F8F8F8F8F8 b)"

definition lose_h :: "Bitboard \<Rightarrow> Bitboard" where
  "lose_h b = lane_l (shr 1 0x7F7F7F7F7F7F7F7F b) (shr 2 0x3F3F3F3F3F3F3F3F b)
                  (shl 1 0xFEFEFEFEFEFEFEFE b) (shl 2 0xFCFCFCFCFCFCFCFC b)"

definition win_v :: "Bitboard \<Rightarrow> Bitboard" where
  "win_v b = lane_w (shr 8 0xFFFFFFFFFFFFFFFF b) (shr 16 0xFFFFFFFFFFFFFFFF b)
                 (shr 24 0xFFFFFFFFFFFFFFFF b) (shl 8 0xFFFFFFFFFFFFFFFF b)
                 (shl 16 0xFFFFFFFFFFFFFFFF b) (shl 24 0xFFFFFFFFFFFFFFFF b)"

definition lose_v :: "Bitboard \<Rightarrow> Bitboard" where
  "lose_v b = lane_l (shr 8 0xFFFFFFFFFFFFFFFF b) (shr 16 0xFFFFFFFFFFFFFFFF b)
                  (shl 8 0xFFFFFFFFFFFFFFFF b) (shl 16 0xFFFFFFFFFFFFFFFF b)"

definition win_d :: "Bitboard \<Rightarrow> Bitboard" where
  "win_d b = lane_w (shr 9 0x7F7F7F7F7F7F7F7F b) (shr 18 0x3F3F3F3F3F3F3F3F b)
                 (shr 27 0x1F1F1F1F1F1F1F1F b) (shl 9 0xFEFEFEFEFEFEFEFE b)
                 (shl 18 0xFCFCFCFCFCFCFCFC b) (shl 27 0xF8F8F8F8F8F8F8F8 b)"

definition lose_d :: "Bitboard \<Rightarrow> Bitboard" where
  "lose_d b = lane_l (shr 9 0x7F7F7F7F7F7F7F7F b) (shr 18 0x3F3F3F3F3F3F3F3F b)
                  (shl 9 0xFEFEFEFEFEFEFEFE b) (shl 18 0xFCFCFCFCFCFCFCFC b)"

definition win_a :: "Bitboard \<Rightarrow> Bitboard" where
  "win_a b = lane_w (shr 7 0xFEFEFEFEFEFEFEFE b) (shr 14 0xFCFCFCFCFCFCFCFC b)
                 (shr 21 0xF8F8F8F8F8F8F8F8 b) (shl 7 0x7F7F7F7F7F7F7F7F b)
                 (shl 14 0x3F3F3F3F3F3F3F3F b) (shl 21 0x1F1F1F1F1F1F1F1F b)"

definition lose_a :: "Bitboard \<Rightarrow> Bitboard" where
  "lose_a b = lane_l (shr 7 0xFEFEFEFEFEFEFEFE b) (shr 14 0xFCFCFCFCFCFCFCFC b)
                  (shl 7 0x7F7F7F7F7F7F7F7F b) (shl 14 0x3F3F3F3F3F3F3F3F b)"

lemma unat_shifts:
  "unat (1 :: Bitboard) = 1" "unat (2 :: Bitboard) = 2" "unat (3 :: Bitboard) = 3"
  "unat (8 :: Bitboard) = 8" "unat (16 :: Bitboard) = 16" "unat (24 :: Bitboard) = 24"
  "unat (9 :: Bitboard) = 9" "unat (18 :: Bitboard) = 18" "unat (27 :: Bitboard) = 27"
  "unat (7 :: Bitboard) = 7" "unat (14 :: Bitboard) = 14" "unat (21 :: Bitboard) = 21"
  by simp_all

lemma avx2_lanes:
  "getWinsAndLossesAVX2 b e =
     (((e AND win_a b) OR (e AND win_v b)) OR ((e AND win_d b) OR (e AND win_h b)),
      ((e AND lose_a b) OR (e AND lose_v b)) OR ((e AND lose_d b) OR (e AND lose_h b)))"
  unfolding getWinsAndLossesAVX2_def Let_def VPBROADCASTQ_def shifts1_def shifts2_def shifts3_def
      maskR1_def maskR2_def maskR3_def maskL1_def maskL2_def maskL3_def
      win_h_def win_v_def win_d_def win_a_def lose_h_def lose_v_def lose_d_def lose_a_def
      lane_w_def lane_l_def shr_def shl_def VPSRLVQ.simps VPSLLVQ.simps VPAND.simps VPOR.simps
      low128.simps VEXTRACTI128_1.simps VPOR128.simps VPSHUFD_4E.simps MOVQ.simps unat_shifts
  by (simp only: ac_simps)

lemma win_h_cell:
  assumes "0 \<le> x \<and> x < 8 \<and> 0 \<le> y \<and> y < 8"
  shows "cell_at (win_h b) x y = four_along b x y (0, 1)"
  unfolding win_h_def lane_w_def four_h [OF assms] using assms
  by (simp only: cell_at_and cell_at_or lane_simps) blast

lemma lose_h_cell:
  assumes "0 \<le> x \<and> x < 8 \<and> 0 \<le> y \<and> y < 8"
  shows "cell_at (lose_h b) x y = three_along b x y (0, 1)"
  unfolding lose_h_def lane_l_def three_h [OF assms] using assms
  by (simp only: cell_at_and cell_at_or lane_simps) blast

lemma win_v_cell:
  assumes "0 \<le> x \<and> x < 8 \<and> 0 \<le> y \<and> y < 8"
  shows "cell_at (win_v b) x y = four_along b x y (1, 0)"
  unfolding win_v_def lane_w_def four_v [OF assms] using assms
  by (simp only: cell_at_and cell_at_or lane_simps) blast

lemma lose_v_cell:
  assumes "0 \<le> x \<and> x < 8 \<and> 0 \<le> y \<and> y < 8"
  shows "cell_at (lose_v b) x y = three_along b x y (1, 0)"
  unfolding lose_v_def lane_l_def three_v [OF assms] using assms
  by (simp only: cell_at_and cell_at_or lane_simps) blast

lemma win_d_cell:
  assumes "0 \<le> x \<and> x < 8 \<and> 0 \<le> y \<and> y < 8"
  shows "cell_at (win_d b) x y = four_along b x y (1, 1)"
  unfolding win_d_def lane_w_def four_d [OF assms] using assms
  by (simp only: cell_at_and cell_at_or lane_simps) blast

lemma lose_d_cell:
  assumes "0 \<le> x \<and> x < 8 \<and> 0 \<le> y \<and> y < 8"
  shows "cell_at (lose_d b) x y = three_along b x y (1, 1)"
  unfolding lose_d_def lane_l_def three_d [OF assms] using assms
  by (simp only: cell_at_and cell_at_or lane_simps) blast

lemma win_a_cell:
  assumes "0 \<le> x \<and> x < 8 \<and> 0 \<le> y \<and> y < 8"
  shows "cell_at (win_a b) x y = four_along b x y (1, - 1)"
  unfolding win_a_def lane_w_def four_a [OF assms] using assms
  by (simp only: cell_at_and cell_at_or lane_simps) blast

lemma lose_a_cell:
  assumes "0 \<le> x \<and> x < 8 \<and> 0 \<le> y \<and> y < 8"
  shows "cell_at (lose_a b) x y = three_along b x y (1, - 1)"
  unfolding lose_a_def lane_l_def three_a [OF assms] using assms
  by (simp only: cell_at_and cell_at_or lane_simps) blast

lemma avx2_win_bit:
  assumes "i < 64"
  shows "bit (fst (getWinsAndLossesAVX2 b e)) i
         = (bit e i \<and> has_run b (int i div 8) (int i mod 8) 4)"
proof -
  from assms have inb: "0 \<le> int i div 8 \<and> int i div 8 < 8 \<and> 0 \<le> int i mod 8 \<and> int i mod 8 < 8"
    by presburger
  show ?thesis
    unfolding avx2_lanes fst_conv bit_or_iff bit_and_iff has_run4
      bit_cell_at [OF assms, of "win_h b"] bit_cell_at [OF assms, of "win_v b"]
      bit_cell_at [OF assms, of "win_d b"] bit_cell_at [OF assms, of "win_a b"]
      win_h_cell [OF inb] win_v_cell [OF inb] win_d_cell [OF inb] win_a_cell [OF inb]
    by blast
qed

lemma avx2_lose_bit:
  assumes "i < 64"
  shows "bit (snd (getWinsAndLossesAVX2 b e)) i
         = (bit e i \<and> has_run b (int i div 8) (int i mod 8) 3)"
proof -
  from assms have inb: "0 \<le> int i div 8 \<and> int i div 8 < 8 \<and> 0 \<le> int i mod 8 \<and> int i mod 8 < 8"
    by presburger
  show ?thesis
    unfolding avx2_lanes snd_conv bit_or_iff bit_and_iff has_run3
      bit_cell_at [OF assms, of "lose_h b"] bit_cell_at [OF assms, of "lose_v b"]
      bit_cell_at [OF assms, of "lose_d b"] bit_cell_at [OF assms, of "lose_a b"]
      lose_h_cell [OF inb] lose_v_cell [OF inb] lose_d_cell [OF inb] lose_a_cell [OF inb]
    by blast
qed

subsection \<open>The scalar extractor, cell by cell\<close>

definition go_h :: "Bitboard \<Rightarrow> Bitboard" where
  "go_h b =
     (shl 3 0xF8F8F8F8F8F8F8F8 (b AND (shr 1 0x7F7F7F7F7F7F7F7F b) AND (shr 2 0x3F3F3F3F3F3F3F3F b))) OR
     ((shr 1 0x7F7F7F7F7F7F7F7F b) AND (shr 2 0x3F3F3F3F3F3F3F3F b) AND (shr 3 0x1F1F1F1F1F1F1F1F b)) OR
     (shl 2 0xFCFCFCFCFCFCFCFC (b AND (shr 1 0x7F7F7F7F7F7F7F7F b) AND (shr 3 0x1F1F1F1F1F1F1F1F b))) OR
     (shl 1 0xFEFEFEFEFEFEFEFE (b AND (shr 2 0x3F3F3F3F3F3F3F3F b) AND (shr 3 0x1F1F1F1F1F1F1F1F b)))"

definition go_v :: "Bitboard \<Rightarrow> Bitboard" where
  "go_v b =
     push_bit 24 (b AND drop_bit 8 b AND drop_bit 16 b) OR
     (drop_bit 8 b AND drop_bit 16 b AND drop_bit 24 b) OR
     push_bit 16 (b AND drop_bit 8 b AND drop_bit 24 b) OR
     push_bit 8 (b AND drop_bit 16 b AND drop_bit 24 b)"

definition go_d :: "Bitboard \<Rightarrow> Bitboard" where
  "go_d b =
     (shl 27 0xF8F8F8F8F8F8F8F8 (b AND (shr 9 0x7F7F7F7F7F7F7F7F b) AND (shr 18 0x3F3F3F3F3F3F3F3F b))) OR
     ((shr 9 0x7F7F7F7F7F7F7F7F b) AND (shr 18 0x3F3F3F3F3F3F3F3F b) AND (shr 27 0x1F1F1F1F1F1F1F1F b)) OR
     (shl 18 0xFCFCFCFCFCFCFCFC (b AND (shr 9 0x7F7F7F7F7F7F7F7F b) AND (shr 27 0x1F1F1F1F1F1F1F1F b))) OR
     (shl 9 0xFEFEFEFEFEFEFEFE (b AND (shr 18 0x3F3F3F3F3F3F3F3F b) AND (shr 27 0x1F1F1F1F1F1F1F1F b)))"

definition go_a :: "Bitboard \<Rightarrow> Bitboard" where
  "go_a b =
     (shl 21 0x1F1F1F1F1F1F1F1F (b AND (shr 7 0xFEFEFEFEFEFEFEFE b) AND (shr 14 0xFCFCFCFCFCFCFCFC b))) OR
     ((shr 7 0xFEFEFEFEFEFEFEFE b) AND (shr 14 0xFCFCFCFCFCFCFCFC b) AND (shr 21 0xF8F8F8F8F8F8F8F8 b)) OR
     (shl 14 0x3F3F3F3F3F3F3F3F (b AND (shr 7 0xFEFEFEFEFEFEFEFE b) AND (shr 21 0xF8F8F8F8F8F8F8F8 b))) OR
     (shl 7 0x7F7F7F7F7F7F7F7F (b AND (shr 14 0xFCFCFCFCFCFCFCFC b) AND (shr 21 0xF8F8F8F8F8F8F8F8 b)))"

definition go_threats :: "Bitboard \<Rightarrow> Bitboard" where
  "go_threats b =
     (((((((((((((((((((0 OR
      (shl 3 0xF8F8F8F8F8F8F8F8 (b AND (shr 1 0x7F7F7F7F7F7F7F7F b) AND (shr 2 0x3F3F3F3F3F3F3F3F b)))) OR
      ((shr 1 0x7F7F7F7F7F7F7F7F b) AND (shr 2 0x3F3F3F3F3F3F3F3F b) AND (shr 3 0x1F1F1F1F1F1F1F1F b))) OR
      (shl 2 0xFCFCFCFCFCFCFCFC (b AND (shr 1 0x7F7F7F7F7F7F7F7F b) AND (shr 3 0x1F1F1F1F1F1F1F1F b)))) OR
      (shl 1 0xFEFEFEFEFEFEFEFE (b AND (shr 2 0x3F3F3F3F3F3F3F3F b) AND (shr 3 0x1F1F1F1F1F1F1F1F b)))) OR
      push_bit 24 (b AND drop_bit 8 b AND drop_bit 16 b)) OR
      (drop_bit 8 b AND drop_bit 16 b AND drop_bit 24 b)) OR
      push_bit 16 (b AND drop_bit 8 b AND drop_bit 24 b)) OR
      push_bit 8 (b AND drop_bit 16 b AND drop_bit 24 b)) OR
      (shl 27 0xF8F8F8F8F8F8F8F8 (b AND (shr 9 0x7F7F7F7F7F7F7F7F b) AND (shr 18 0x3F3F3F3F3F3F3F3F b)))) OR
      ((shr 9 0x7F7F7F7F7F7F7F7F b) AND (shr 18 0x3F3F3F3F3F3F3F3F b) AND (shr 27 0x1F1F1F1F1F1F1F1F b))) OR
      (shl 18 0xFCFCFCFCFCFCFCFC (b AND (shr 9 0x7F7F7F7F7F7F7F7F b) AND (shr 27 0x1F1F1F1F1F1F1F1F b)))) OR
      (shl 9 0xFEFEFEFEFEFEFEFE (b AND (shr 18 0x3F3F3F3F3F3F3F3F b) AND (shr 27 0x1F1F1F1F1F1F1F1F b)))) OR
      (shl 21 0x1F1F1F1F1F1F1F1F (b AND (shr 7 0xFEFEFEFEFEFEFEFE b) AND (shr 14 0xFCFCFCFCFCFCFCFC b)))) OR
      ((shr 7 0xFEFEFEFEFEFEFEFE b) AND (shr 14 0xFCFCFCFCFCFCFCFC b) AND (shr 21 0xF8F8F8F8F8F8F8F8 b))) OR
      (shl 14 0x3F3F3F3F3F3F3F3F (b AND (shr 7 0xFEFEFEFEFEFEFEFE b) AND (shr 21 0xF8F8F8F8F8F8F8F8 b)))) OR
      (shl 21 0x1F1F1F1F1F1F1F1F (b AND (shr 7 0xFEFEFEFEFEFEFEFE b) AND (shr 14 0xFCFCFCFCFCFCFCFC b)))) OR
      ((shr 7 0xFEFEFEFEFEFEFEFE b) AND (shr 14 0xFCFCFCFCFCFCFCFC b) AND (shr 21 0xF8F8F8F8F8F8F8F8 b))) OR
      (shl 14 0x3F3F3F3F3F3F3F3F (b AND (shr 7 0xFEFEFEFEFEFEFEFE b) AND (shr 21 0xF8F8F8F8F8F8F8F8 b)))) OR
      (shl 7 0x7F7F7F7F7F7F7F7F (b AND (shr 14 0xFCFCFCFCFCFCFCFC b) AND (shr 21 0xF8F8F8F8F8F8F8F8 b))))"

lemma go_expr:
  "GetWinningMoves brd pID = go_threats (GetPlayerBoard brd pID) AND NOT (Occupied brd)"
  unfolding GetWinningMoves_def Let_def go_threats_def shr_def shl_def go_masks
  by (rule refl)

lemma go_threats_dirs: "go_threats b = go_h b OR go_v b OR go_d b OR go_a b"
  unfolding go_threats_def go_h_def go_v_def go_d_def go_a_def
  by (simp only: or.left_neutral or.assoc or.left_idem or.idem or.commute or.left_commute)

lemma trip_h_12:
  "cell_at (b AND (shr 1 0x7F7F7F7F7F7F7F7F b) AND (shr 2 0x3F3F3F3F3F3F3F3F b)) u v =
     (cell_at b u v \<and> cell_at b u (v + 1) \<and> cell_at b u (v + 2))"
  by (simp only: cell_at_and lane_h_r1 lane_h_r2 lane_h_r3) (blast dest: cell_at_inb)

lemma trip_h_13:
  "cell_at (b AND (shr 1 0x7F7F7F7F7F7F7F7F b) AND (shr 3 0x1F1F1F1F1F1F1F1F b)) u v =
     (cell_at b u v \<and> cell_at b u (v + 1) \<and> cell_at b u (v + 3))"
  by (simp only: cell_at_and lane_h_r1 lane_h_r2 lane_h_r3) (blast dest: cell_at_inb)

lemma trip_h_23:
  "cell_at (b AND (shr 2 0x3F3F3F3F3F3F3F3F b) AND (shr 3 0x1F1F1F1F1F1F1F1F b)) u v =
     (cell_at b u v \<and> cell_at b u (v + 2) \<and> cell_at b u (v + 3))"
  by (simp only: cell_at_and lane_h_r1 lane_h_r2 lane_h_r3) (blast dest: cell_at_inb)

lemma go_h_t3:
  assumes "0 \<le> x \<and> x < 8 \<and> 0 \<le> y \<and> y < 8"
  shows "cell_at (shl 3 0xF8F8F8F8F8F8F8F8 (b AND (shr 1 0x7F7F7F7F7F7F7F7F b) AND (shr 2 0x3F3F3F3F3F3F3F3F b))) x y =
     (cell_at b x (y - 3) \<and> cell_at b x (y - 2) \<and> cell_at b x (y - 1))"
  using assms by (simp only: lane_h_l3 trip_h_12) (simp add: add.commute)

lemma go_h_t2:
  assumes "0 \<le> x \<and> x < 8 \<and> 0 \<le> y \<and> y < 8"
  shows "cell_at (shl 2 0xFCFCFCFCFCFCFCFC (b AND (shr 1 0x7F7F7F7F7F7F7F7F b) AND (shr 3 0x1F1F1F1F1F1F1F1F b))) x y =
     (cell_at b x (y - 2) \<and> cell_at b x (y - 1) \<and> cell_at b x (y + 1))"
  using assms by (simp only: lane_h_l2 trip_h_13) (simp add: add.commute)

lemma go_h_t1:
  assumes "0 \<le> x \<and> x < 8 \<and> 0 \<le> y \<and> y < 8"
  shows "cell_at (shl 1 0xFEFEFEFEFEFEFEFE (b AND (shr 2 0x3F3F3F3F3F3F3F3F b) AND (shr 3 0x1F1F1F1F1F1F1F1F b))) x y =
     (cell_at b x (y - 1) \<and> cell_at b x (y + 1) \<and> cell_at b x (y + 2))"
  using assms by (simp only: lane_h_l1 trip_h_23) (simp add: add.commute)

lemma go_h_t0:
  assumes "0 \<le> x \<and> x < 8 \<and> 0 \<le> y \<and> y < 8"
  shows "cell_at ((shr 1 0x7F7F7F7F7F7F7F7F b) AND (shr 2 0x3F3F3F3F3F3F3F3F b) AND (shr 3 0x1F1F1F1F1F1F1F1F b)) x y =
     (cell_at b x (y + 1) \<and> cell_at b x (y + 2) \<and> cell_at b x (y + 3))"
  using assms by (simp only: cell_at_and lane_h_r1 lane_h_r2 lane_h_r3) blast

lemma go_h_cell:
  assumes "0 \<le> x \<and> x < 8 \<and> 0 \<le> y \<and> y < 8"
  shows "cell_at (go_h b) x y = four_along b x y (0, 1)"
  unfolding go_h_def four_h [OF assms] cell_at_or
    go_h_t3 [OF assms] go_h_t2 [OF assms] go_h_t1 [OF assms] go_h_t0 [OF assms]
  by blast

lemma trip_v_12:
  "cell_at (b AND drop_bit 8 b AND drop_bit 16 b) u v =
     (cell_at b u v \<and> cell_at b (u + 1) v \<and> cell_at b (u + 2) v)"
  by (simp only: cell_at_and shift_v_r1 shift_v_r2 shift_v_r3) (blast dest: cell_at_inb)

lemma trip_v_13:
  "cell_at (b AND drop_bit 8 b AND drop_bit 24 b) u v =
     (cell_at b u v \<and> cell_at b (u + 1) v \<and> cell_at b (u + 3) v)"
  by (simp only: cell_at_and shift_v_r1 shift_v_r2 shift_v_r3) (blast dest: cell_at_inb)

lemma trip_v_23:
  "cell_at (b AND drop_bit 16 b AND drop_bit 24 b) u v =
     (cell_at b u v \<and> cell_at b (u + 2) v \<and> cell_at b (u + 3) v)"
  by (simp only: cell_at_and shift_v_r1 shift_v_r2 shift_v_r3) (blast dest: cell_at_inb)

lemma go_v_t3:
  assumes "0 \<le> x \<and> x < 8 \<and> 0 \<le> y \<and> y < 8"
  shows "cell_at (push_bit 24 (b AND drop_bit 8 b AND drop_bit 16 b)) x y =
     (cell_at b (x - 3) y \<and> cell_at b (x - 2) y \<and> cell_at b (x - 1) y)"
  using assms by (simp only: shift_v_l3 trip_v_12) (simp add: add.commute)

lemma go_v_t2:
  assumes "0 \<le> x \<and> x < 8 \<and> 0 \<le> y \<and> y < 8"
  shows "cell_at (push_bit 16 (b AND drop_bit 8 b AND drop_bit 24 b)) x y =
     (cell_at b (x - 2) y \<and> cell_at b (x - 1) y \<and> cell_at b (x + 1) y)"
  using assms by (simp only: shift_v_l2 trip_v_13) (simp add: add.commute)

lemma go_v_t1:
  assumes "0 \<le> x \<and> x < 8 \<and> 0 \<le> y \<and> y < 8"
  shows "cell_at (push_bit 8 (b AND drop_bit 16 b AND drop_bit 24 b)) x y =
     (cell_at b (x - 1) y \<and> cell_at b (x + 1) y \<and> cell_at b (x + 2) y)"
  using assms by (simp only: shift_v_l1 trip_v_23) (simp add: add.commute)

lemma go_v_t0:
  assumes "0 \<le> x \<and> x < 8 \<and> 0 \<le> y \<and> y < 8"
  shows "cell_at (drop_bit 8 b AND drop_bit 16 b AND drop_bit 24 b) x y =
     (cell_at b (x + 1) y \<and> cell_at b (x + 2) y \<and> cell_at b (x + 3) y)"
  using assms by (simp only: cell_at_and shift_v_r1 shift_v_r2 shift_v_r3) blast

lemma go_v_cell:
  assumes "0 \<le> x \<and> x < 8 \<and> 0 \<le> y \<and> y < 8"
  shows "cell_at (go_v b) x y = four_along b x y (1, 0)"
  unfolding go_v_def four_v [OF assms] cell_at_or
    go_v_t3 [OF assms] go_v_t2 [OF assms] go_v_t1 [OF assms] go_v_t0 [OF assms]
  by blast

lemma trip_d_12:
  "cell_at (b AND (shr 9 0x7F7F7F7F7F7F7F7F b) AND (shr 18 0x3F3F3F3F3F3F3F3F b)) u v =
     (cell_at b u v \<and> cell_at b (u + 1) (v + 1) \<and> cell_at b (u + 2) (v + 2))"
  by (simp only: cell_at_and lane_d_r1 lane_d_r2 lane_d_r3) (blast dest: cell_at_inb)

lemma trip_d_13:
  "cell_at (b AND (shr 9 0x7F7F7F7F7F7F7F7F b) AND (shr 27 0x1F1F1F1F1F1F1F1F b)) u v =
     (cell_at b u v \<and> cell_at b (u + 1) (v + 1) \<and> cell_at b (u + 3) (v + 3))"
  by (simp only: cell_at_and lane_d_r1 lane_d_r2 lane_d_r3) (blast dest: cell_at_inb)

lemma trip_d_23:
  "cell_at (b AND (shr 18 0x3F3F3F3F3F3F3F3F b) AND (shr 27 0x1F1F1F1F1F1F1F1F b)) u v =
     (cell_at b u v \<and> cell_at b (u + 2) (v + 2) \<and> cell_at b (u + 3) (v + 3))"
  by (simp only: cell_at_and lane_d_r1 lane_d_r2 lane_d_r3) (blast dest: cell_at_inb)

lemma go_d_t3:
  assumes "0 \<le> x \<and> x < 8 \<and> 0 \<le> y \<and> y < 8"
  shows "cell_at (shl 27 0xF8F8F8F8F8F8F8F8 (b AND (shr 9 0x7F7F7F7F7F7F7F7F b) AND (shr 18 0x3F3F3F3F3F3F3F3F b))) x y =
     (cell_at b (x - 3) (y - 3) \<and> cell_at b (x - 2) (y - 2) \<and> cell_at b (x - 1) (y - 1))"
  using assms by (simp only: lane_d_l3 trip_d_12) (simp add: add.commute)

lemma go_d_t2:
  assumes "0 \<le> x \<and> x < 8 \<and> 0 \<le> y \<and> y < 8"
  shows "cell_at (shl 18 0xFCFCFCFCFCFCFCFC (b AND (shr 9 0x7F7F7F7F7F7F7F7F b) AND (shr 27 0x1F1F1F1F1F1F1F1F b))) x y =
     (cell_at b (x - 2) (y - 2) \<and> cell_at b (x - 1) (y - 1) \<and> cell_at b (x + 1) (y + 1))"
  using assms by (simp only: lane_d_l2 trip_d_13) (simp add: add.commute)

lemma go_d_t1:
  assumes "0 \<le> x \<and> x < 8 \<and> 0 \<le> y \<and> y < 8"
  shows "cell_at (shl 9 0xFEFEFEFEFEFEFEFE (b AND (shr 18 0x3F3F3F3F3F3F3F3F b) AND (shr 27 0x1F1F1F1F1F1F1F1F b))) x y =
     (cell_at b (x - 1) (y - 1) \<and> cell_at b (x + 1) (y + 1) \<and> cell_at b (x + 2) (y + 2))"
  using assms by (simp only: lane_d_l1 trip_d_23) (simp add: add.commute)

lemma go_d_t0:
  assumes "0 \<le> x \<and> x < 8 \<and> 0 \<le> y \<and> y < 8"
  shows "cell_at ((shr 9 0x7F7F7F7F7F7F7F7F b) AND (shr 18 0x3F3F3F3F3F3F3F3F b) AND (shr 27 0x1F1F1F1F1F1F1F1F b)) x y =
     (cell_at b (x + 1) (y + 1) \<and> cell_at b (x + 2) (y + 2) \<and> cell_at b (x + 3) (y + 3))"
  using assms by (simp only: cell_at_and lane_d_r1 lane_d_r2 lane_d_r3) blast

lemma go_d_cell:
  assumes "0 \<le> x \<and> x < 8 \<and> 0 \<le> y \<and> y < 8"
  shows "cell_at (go_d b) x y = four_along b x y (1, 1)"
  unfolding go_d_def four_d [OF assms] cell_at_or
    go_d_t3 [OF assms] go_d_t2 [OF assms] go_d_t1 [OF assms] go_d_t0 [OF assms]
  by blast

lemma trip_a_12:
  "cell_at (b AND (shr 7 0xFEFEFEFEFEFEFEFE b) AND (shr 14 0xFCFCFCFCFCFCFCFC b)) u v =
     (cell_at b u v \<and> cell_at b (u + 1) (v - 1) \<and> cell_at b (u + 2) (v - 2))"
  by (simp only: cell_at_and lane_a_r1 lane_a_r2 lane_a_r3) (blast dest: cell_at_inb)

lemma trip_a_13:
  "cell_at (b AND (shr 7 0xFEFEFEFEFEFEFEFE b) AND (shr 21 0xF8F8F8F8F8F8F8F8 b)) u v =
     (cell_at b u v \<and> cell_at b (u + 1) (v - 1) \<and> cell_at b (u + 3) (v - 3))"
  by (simp only: cell_at_and lane_a_r1 lane_a_r2 lane_a_r3) (blast dest: cell_at_inb)

lemma trip_a_23:
  "cell_at (b AND (shr 14 0xFCFCFCFCFCFCFCFC b) AND (shr 21 0xF8F8F8F8F8F8F8F8 b)) u v =
     (cell_at b u v \<and> cell_at b (u + 2) (v - 2) \<and> cell_at b (u + 3) (v - 3))"
  by (simp only: cell_at_and lane_a_r1 lane_a_r2 lane_a_r3) (blast dest: cell_at_inb)

lemma go_a_t3:
  assumes "0 \<le> x \<and> x < 8 \<and> 0 \<le> y \<and> y < 8"
  shows "cell_at (shl 21 0x1F1F1F1F1F1F1F1F (b AND (shr 7 0xFEFEFEFEFEFEFEFE b) AND (shr 14 0xFCFCFCFCFCFCFCFC b))) x y =
     (cell_at b (x - 3) (y + 3) \<and> cell_at b (x - 2) (y + 2) \<and> cell_at b (x - 1) (y + 1))"
  using assms by (simp only: lane_a_l3 trip_a_12) (simp add: add.commute)

lemma go_a_t2:
  assumes "0 \<le> x \<and> x < 8 \<and> 0 \<le> y \<and> y < 8"
  shows "cell_at (shl 14 0x3F3F3F3F3F3F3F3F (b AND (shr 7 0xFEFEFEFEFEFEFEFE b) AND (shr 21 0xF8F8F8F8F8F8F8F8 b))) x y =
     (cell_at b (x - 2) (y + 2) \<and> cell_at b (x - 1) (y + 1) \<and> cell_at b (x + 1) (y - 1))"
  using assms by (simp only: lane_a_l2 trip_a_13) (simp add: add.commute)

lemma go_a_t1:
  assumes "0 \<le> x \<and> x < 8 \<and> 0 \<le> y \<and> y < 8"
  shows "cell_at (shl 7 0x7F7F7F7F7F7F7F7F (b AND (shr 14 0xFCFCFCFCFCFCFCFC b) AND (shr 21 0xF8F8F8F8F8F8F8F8 b))) x y =
     (cell_at b (x - 1) (y + 1) \<and> cell_at b (x + 1) (y - 1) \<and> cell_at b (x + 2) (y - 2))"
  using assms by (simp only: lane_a_l1 trip_a_23) (simp add: add.commute)

lemma go_a_t0:
  assumes "0 \<le> x \<and> x < 8 \<and> 0 \<le> y \<and> y < 8"
  shows "cell_at ((shr 7 0xFEFEFEFEFEFEFEFE b) AND (shr 14 0xFCFCFCFCFCFCFCFC b) AND (shr 21 0xF8F8F8F8F8F8F8F8 b)) x y =
     (cell_at b (x + 1) (y - 1) \<and> cell_at b (x + 2) (y - 2) \<and> cell_at b (x + 3) (y - 3))"
  using assms by (simp only: cell_at_and lane_a_r1 lane_a_r2 lane_a_r3) blast

lemma go_a_cell:
  assumes "0 \<le> x \<and> x < 8 \<and> 0 \<le> y \<and> y < 8"
  shows "cell_at (go_a b) x y = four_along b x y (1, - 1)"
  unfolding go_a_def four_a [OF assms] cell_at_or
    go_a_t3 [OF assms] go_a_t2 [OF assms] go_a_t1 [OF assms] go_a_t0 [OF assms]
  by blast

lemma go_win_bit:
  assumes "i < 64"
  shows "bit (GetWinningMoves brd pID) i
         = (bit (NOT (Occupied brd)) i \<and>
            has_run (GetPlayerBoard brd pID) (int i div 8) (int i mod 8) 4)"
proof -
  from assms have inb: "0 \<le> int i div 8 \<and> int i div 8 < 8 \<and> 0 \<le> int i mod 8 \<and> int i mod 8 < 8"
    by presburger
  have "bit (go_threats (GetPlayerBoard brd pID)) i
        = has_run (GetPlayerBoard brd pID) (int i div 8) (int i mod 8) 4"
    unfolding bit_cell_at [OF assms] go_threats_dirs cell_at_or has_run4
      go_h_cell [OF inb] go_v_cell [OF inb] go_d_cell [OF inb] go_a_cell [OF inb]
    by (rule refl)
  then show ?thesis unfolding go_expr bit_and_iff by blast
qed

subsection \<open>The enumeration's loop over the cells\<close>

lemma empty_test: "(e AND push_bit i 1 = 0) = (\<not> bit e i)" for e :: Bitboard
  by (simp add: push_bit_of_1 and_exp_eq_0_iff_not_bit)

lemma bit_single: "bit (push_bit i 1 :: Bitboard) j = (j = i \<and> i < 64)"
  by (auto simp: bit_exp_iff)

lemma bit_single_exp: "bit (2 ^ i :: Bitboard) j = (j = i \<and> i < 64)"
  by (auto simp: bit_exp_iff)

lemma slow_cell_fst:
  "bit (fst (slow_cell b e wl i)) j
   = (bit (fst wl) j \<or> (j = i \<and> i < 64 \<and> bit e i \<and> has_run b (int i div 8) (int i mod 8) 4))"
  by (auto simp: slow_cell_def and_exp_eq_0_iff_not_bit Let_def bit_or_iff bit_single_exp)

lemma slow_cell_snd:
  "bit (snd (slow_cell b e wl i)) j
   = (bit (snd wl) j \<or> (j = i \<and> i < 64 \<and> bit e i \<and> \<not> has_run b (int i div 8) (int i mod 8) 4
        \<and> has_run b (int i div 8) (int i mod 8) 3))"
  by (auto simp: slow_cell_def and_exp_eq_0_iff_not_bit Let_def bit_or_iff bit_single_exp)

lemma slow_fold:
  assumes "n \<le> 64"
  shows "bit (fst (foldl (slow_cell b e) (0, 0) [0..<n])) j
         = (j < n \<and> bit e j \<and> has_run b (int j div 8) (int j mod 8) 4)"
    and "bit (snd (foldl (slow_cell b e) (0, 0) [0..<n])) j
         = (j < n \<and> bit e j \<and> \<not> has_run b (int j div 8) (int j mod 8) 4
            \<and> has_run b (int j div 8) (int j mod 8) 3)"
  using assms
proof (induction n)
  case 0
  {
    case 1 show ?case by simp
  next
    case 2 show ?case by simp
  }
next
  case (Suc n)
  {
    case 1
    with Suc.IH(1) show ?case
      by (auto simp: slow_cell_fst less_Suc_eq)
  next
    case 2
    with Suc.IH(2) show ?case
      by (auto simp: slow_cell_snd less_Suc_eq)
  }
qed

lemma slow_bits:
  assumes "i < 64"
  shows "bit (fst (slowGetWinsAndLosses b e)) i
         = (bit e i \<and> has_run b (int i div 8) (int i mod 8) 4)"
    and "bit (snd (slowGetWinsAndLosses b e)) i
         = (bit e i \<and> \<not> has_run b (int i div 8) (int i mod 8) 4
            \<and> has_run b (int i div 8) (int i mod 8) 3)"
  using assms slow_fold [of 64 b e i]
  by (auto simp: slowGetWinsAndLosses_def split_beta bit_and_iff bit_not_iff)

lemma wrapper_bits:
  assumes "i < 64"
  shows "bit (fst (GetWinsAndLosses b e)) i
         = (bit e i \<and> has_run b (int i div 8) (int i mod 8) 4)"
    and "bit (snd (GetWinsAndLosses b e)) i
         = (bit e i \<and> \<not> has_run b (int i div 8) (int i mod 8) 4
            \<and> has_run b (int i div 8) (int i mod 8) 3)"
  using assms avx2_win_bit [OF assms, of b e] avx2_lose_bit [OF assms, of b e]
  by (auto simp: GetWinsAndLosses_def split_beta bit_and_iff bit_not_iff)

lemma word64_eqI: "(\<And>i. i < 64 \<Longrightarrow> bit a i = bit b i) \<Longrightarrow> a = b" for a b :: Bitboard
  by (rule bit_word_eqI) simp

section \<open>Forced moves as a list (GetValidMoves)\<close>

lemma takeWhile_short: "(length (takeWhile P xs) < length xs) = (\<exists>x\<in>set xs. \<not> P x)"
  by (induction xs) auto

lemma takeWhile_before: "j < length (takeWhile P xs) \<Longrightarrow> P (xs ! j)"
proof (induction xs arbitrary: j)
  case Nil
  then show ?case by simp
next
  case (Cons a xs)
  then show ?case by (cases j) (auto split: if_splits)
qed

lemma tz_props:
  assumes "x \<noteq> 0"
  shows "TrailingZeros64 x < 64" "bit x (TrailingZeros64 x)"
    "j < TrailingZeros64 x \<Longrightarrow> \<not> bit x j"
proof -
  let ?P = "\<lambda>i. \<not> bit x i"
  let ?n = "length (takeWhile ?P [0..<64])"
  have "\<exists>i<64. bit x i"
  proof (rule ccontr)
    assume "\<not> (\<exists>i<64. bit x i)"
    then have "x = 0" by (intro word64_eqI) simp
    with assms show False by simp
  qed
  then have "\<exists>k\<in>set [0..<64]. \<not> ?P k" by auto
  then have "?n < length [0..<64]" by (simp only: takeWhile_short)
  then have lt: "?n < 64" by simp
  then show "TrailingZeros64 x < 64" by (simp add: TrailingZeros64_def)
  from lt have "?n < length [0..<64]" by simp
  then have "\<not> ?P ([0..<64] ! ?n)" by (rule nth_length_takeWhile)
  with lt show "bit x (TrailingZeros64 x)" by (simp add: TrailingZeros64_def)
  show "\<not> bit x j" if "j < TrailingZeros64 x"
  proof -
    from that have jn: "j < ?n" by (simp add: TrailingZeros64_def)
    then have "?P ([0..<64] ! j)" by (rule takeWhile_before)
    with jn lt show ?thesis by simp
  qed
qed

lemma tz_zero: "TrailingZeros64 0 = 64"
proof -
  have h: "takeWhile (\<lambda>i. \<not> bit (0 :: Bitboard) i) [0..<64] = [0..<64]"
    by (rule takeWhile_eq_all_conv [THEN iffD2]) simp
  show ?thesis unfolding TrailingZeros64_def h by simp
qed

lemma clear_bit_less:
  assumes "x \<noteq> 0"
  shows "unat (x AND NOT (push_bit (TrailingZeros64 x) 1)) < unat x"
proof -
  let ?y = "x AND NOT (push_bit (TrailingZeros64 x) 1)"
  have "?y \<le> x" by (rule word_and_le2)
  moreover have "?y \<noteq> x"
  proof
    assume "?y = x"
    then have "bit ?y (TrailingZeros64 x) = bit x (TrailingZeros64 x)" by simp
    with tz_props(1,2) [OF assms] show False
      by (simp add: bit_and_iff bit_not_iff bit_single_exp)
  qed
  ultimately have "?y < x" by simp
  then show ?thesis by (simp add: word_less_nat_alt)
qed

text \<open>
  The loop \<open>for combined != 0\<close> of GetValidMoves: take the lowest set bit, append its
  move, clear the bit. It ends because the mask gets smaller each time round.
\<close>

function moves_loop :: "Bitboard \<Rightarrow> Move list \<Rightarrow> Move list" where
  "moves_loop combined moves =
     (if combined \<noteq> 0
      then let idx = TrailingZeros64 combined
           in moves_loop (combined AND NOT (push_bit idx 1)) (moves @ [MoveFromIndex (int idx)])
      else moves)"
  by pat_completeness auto
termination
proof (relation "measure (\<lambda>(combined, moves). unat combined)")
  show "wf (measure (\<lambda>(combined, moves). unat combined))" by simp
next
  fix combined :: Bitboard and moves :: "Move list" and x
  assume "combined \<noteq> 0" "x = TrailingZeros64 combined"
  then have "unat (combined AND NOT (push_bit x 1)) < unat combined"
    using clear_bit_less by blast
  then show "((combined AND NOT (push_bit x 1), moves @ [MoveFromIndex (int x)]), combined, moves)
             \<in> measure (\<lambda>(combined, moves). unat combined)"
    by (simp only: in_measure split_conv)
qed

declare moves_loop.simps [simp del]

text \<open>A \<open>nil\<close> slice is \<open>None\<close>: the caller tests for it.\<close>

definition GetValidMoves :: "Board \<Rightarrow> int \<Rightarrow> int \<Rightarrow> Move list option" where
  "GetValidMoves brd currentPID nextPID =
     (let threats = GetWinningMoves brd nextPID;
          myWins = GetWinningMoves brd currentPID
      in if threats = 0 then None
         else let combined = threats OR myWins in Some (moves_loop combined []))"

lemma ToIndex_MoveFromIndex: "0 \<le> i \<Longrightarrow> ToIndex (MoveFromIndex i) = i"
  by (simp add: ToIndex_def MoveFromIndex_def go_div_def go_mod_def sgn_if)

lemma MoveFromIndex_nat:
  "MoveFromIndex (int i) = \<lparr>r = int (i div 8), c = int (i mod 8)\<rparr>"
  by (simp add: MoveFromIndex_def go_div_def go_mod_def sgn_if zdiv_int zmod_int minus_mult_div_eq_mod)

lemma bits_split:
  assumes "x \<noteq> 0"
  shows "bit x i = (i = TrailingZeros64 x \<or> bit (x AND NOT (push_bit (TrailingZeros64 x) 1)) i)"
  using tz_props(1,2) [OF assms] bit_imp_le_length [of x i]
  by (auto simp: bit_and_iff bit_not_iff bit_single_exp)

lemma moves_loop_set:
  "set (moves_loop x ms) = set ms \<union> {MoveFromIndex (int i) |i. bit x i}"
proof (induction x ms rule: moves_loop.induct)
  case (1 combined moves)
  show ?case
  proof (cases "combined = 0")
    case True
    then show ?thesis by (simp add: moves_loop.simps [of 0 moves])
  next
    case False
    let ?idx = "TrailingZeros64 combined"
    let ?rest = "combined AND NOT (push_bit ?idx 1)"
    from False have "set (moves_loop combined moves) = set (moves_loop ?rest (moves @ [MoveFromIndex (int ?idx)]))"
      by (simp add: moves_loop.simps [of combined moves] Let_def)
    also from False have "\<dots> = set (moves @ [MoveFromIndex (int ?idx)]) \<union> {MoveFromIndex (int i) |i. bit ?rest i}"
      using "1.IH" [OF False refl] by simp
    also have "\<dots> = set moves \<union> {MoveFromIndex (int i) |i. i = ?idx \<or> bit ?rest i}"
      by auto
    also have "\<dots> = set moves \<union> {MoveFromIndex (int i) |i. bit combined i}"
      by (simp only: bits_split [OF False, symmetric])
    finally show ?thesis .
  qed
qed

section \<open>The extractor and the forced moves: results\<close>

text \<open>
  C1. The extractor returns the pair of masks that the cell-by-cell enumeration returns, for
  all stones and all empty masks (disjoint or not): the four-lane kernel followed by the
  final \<open>lose &= !wins\<close>, and, for the winning cells, the scalar shift-and-mask code
  of GetWinningMoves on a board.
\<close>

theorem extractor_agrees_with_enumeration:
  "GetWinsAndLosses stones emptyBB = slowGetWinsAndLosses stones emptyBB \<and>
   fst (getWinsAndLossesAVX2 stones emptyBB) = fst (slowGetWinsAndLosses stones emptyBB) \<and>
   snd (getWinsAndLossesAVX2 stones emptyBB) AND NOT (fst (getWinsAndLossesAVX2 stones emptyBB))
     = snd (slowGetWinsAndLosses stones emptyBB) \<and>
   GetWinningMoves brd pID
     = fst (slowGetWinsAndLosses (GetPlayerBoard brd pID) (NOT (Occupied brd)))"
proof -
  have w: "fst (GetWinsAndLosses stones emptyBB) = fst (slowGetWinsAndLosses stones emptyBB)"
    by (rule word64_eqI) (simp add: wrapper_bits slow_bits)
  have l: "snd (GetWinsAndLosses stones emptyBB) = snd (slowGetWinsAndLosses stones emptyBB)"
    by (rule word64_eqI) (simp add: wrapper_bits slow_bits)
  have g: "GetWinningMoves brd pID
           = fst (slowGetWinsAndLosses (GetPlayerBoard brd pID) (NOT (Occupied brd)))"
    by (rule word64_eqI) (simp add: go_win_bit slow_bits)
  from w l have "GetWinsAndLosses stones emptyBB = slowGetWinsAndLosses stones emptyBB"
    by (rule prod_eqI)
  moreover from w have "fst (getWinsAndLossesAVX2 stones emptyBB)
                        = fst (slowGetWinsAndLosses stones emptyBB)"
    by (simp add: GetWinsAndLosses_def split_beta)
  moreover from l have "snd (getWinsAndLossesAVX2 stones emptyBB)
                          AND NOT (fst (getWinsAndLossesAVX2 stones emptyBB))
                        = snd (slowGetWinsAndLosses stones emptyBB)"
    by (simp add: GetWinsAndLosses_def split_beta)
  ultimately show ?thesis using g by blast
qed

text \<open>
  The kernel alone does not separate the two masks: each cell of its win output is also in
  its lose output, since a run of four through a cell holds a run of three through it.
\<close>

lemma has_run4_imp_3:
  assumes "0 \<le> x \<and> x < 8 \<and> 0 \<le> y \<and> y < 8" "has_run b x y 4"
  shows "has_run b x y 3"
  using assms(2) unfolding has_run4 has_run3
    four_h [OF assms(1)] four_v [OF assms(1)] four_d [OF assms(1)] four_a [OF assms(1)]
    three_h [OF assms(1)] three_v [OF assms(1)] three_d [OF assms(1)] three_a [OF assms(1)]
  by blast

lemma kernel_lose_contains_win:
  "fst (getWinsAndLossesAVX2 b e) AND snd (getWinsAndLossesAVX2 b e)
   = fst (getWinsAndLossesAVX2 b e)"
proof (rule word64_eqI)
  fix i :: nat
  assume i: "i < 64"
  then have inb: "0 \<le> int i div 8 \<and> int i div 8 < 8 \<and> 0 \<le> int i mod 8 \<and> int i mod 8 < 8"
    by presburger
  show "bit (fst (getWinsAndLossesAVX2 b e) AND snd (getWinsAndLossesAVX2 b e)) i
        = bit (fst (getWinsAndLossesAVX2 b e)) i"
    using has_run4_imp_3 [OF inb, of b]
    by (auto simp: bit_and_iff avx2_win_bit [OF i] avx2_lose_bit [OF i])
qed

text \<open>
  C5. The win mask and the lose mask that the extractor returns share no cell, and neither
  do the two masks of the enumeration.
\<close>

theorem wins_and_losses_disjoint:
  "fst (GetWinsAndLosses stones emptyBB) AND snd (GetWinsAndLosses stones emptyBB) = 0 \<and>
   fst (slowGetWinsAndLosses stones emptyBB) AND snd (slowGetWinsAndLosses stones emptyBB) = 0"
proof -
  have d: "w AND (l AND NOT w) = 0" for w l :: Bitboard
    by (simp add: bit_eq_iff bit_and_iff bit_not_iff)
  show ?thesis
    by (simp add: GetWinsAndLosses_def slowGetWinsAndLosses_def split_beta d)
qed

text \<open>
  C2. With no winning cell for the next player GetValidMoves returns no list (the mover is
  unrestricted). Otherwise it returns the cells of the next player's winning mask joined with
  the mover's own, each cell once as row and column, and every one of them is an empty cell
  of the board.
\<close>

theorem GetValidMoves_forced_set:
  "(GetWinningMoves brd nextPID = 0 \<longrightarrow> GetValidMoves brd currentPID nextPID = None) \<and>
   (GetWinningMoves brd nextPID \<noteq> 0 \<longrightarrow>
      (\<exists>ms. GetValidMoves brd currentPID nextPID = Some ms \<and>
            set ms = {MoveFromIndex (int i) |i.
                        bit (GetWinningMoves brd nextPID OR GetWinningMoves brd currentPID) i} \<and>
            ToIndex ` set ms = {int i |i.
                        bit (GetWinningMoves brd nextPID OR GetWinningMoves brd currentPID) i} \<and>
            (\<forall>m\<in>set ms. \<exists>i<64. m = \<lparr>r = int (i div 8), c = int (i mod 8)\<rparr> \<and>
                                 \<not> bit (Occupied brd) i)))"
proof (intro conjI impI)
  assume "GetWinningMoves brd nextPID = 0"
  then show "GetValidMoves brd currentPID nextPID = None"
    by (simp add: GetValidMoves_def)
next
  let ?t = "GetWinningMoves brd nextPID" and ?w = "GetWinningMoves brd currentPID"
  let ?ms = "moves_loop (?t OR ?w) []"
  assume t: "?t \<noteq> 0"
  then have v: "GetValidMoves brd currentPID nextPID = Some ?ms"
    by (simp add: GetValidMoves_def Let_def)
  have s: "set ?ms = {MoveFromIndex (int i) |i. bit (?t OR ?w) i}"
    using moves_loop_set [of "?t OR ?w" "[]"] by simp
  have "ToIndex ` {MoveFromIndex (int i) |i. bit (?t OR ?w) i}
        = {ToIndex (MoveFromIndex (int i)) |i. bit (?t OR ?w) i}"
    by blast
  then have idx: "ToIndex ` set ?ms = {int i |i. bit (?t OR ?w) i}"
    unfolding s by (simp add: ToIndex_MoveFromIndex)
  have e: "\<exists>i<64. m = \<lparr>r = int (i div 8), c = int (i mod 8)\<rparr> \<and> \<not> bit (Occupied brd) i"
    if "m \<in> set ?ms" for m
  proof -
    from that s obtain i where i: "m = MoveFromIndex (int i)" "bit (?t OR ?w) i" by auto
    from i(2) have lt: "i < 64" using bit_imp_le_length [of "?t OR ?w" i] by simp
    from i(2) lt have "\<not> bit (Occupied brd) i"
      by (auto simp: bit_or_iff go_win_bit bit_not_iff)
    with i(1) lt show ?thesis by (auto simp: MoveFromIndex_nat)
  qed
  from v s idx e show "\<exists>ms. GetValidMoves brd currentPID nextPID = Some ms \<and>
            set ms = {MoveFromIndex (int i) |i. bit (?t OR ?w) i} \<and>
            ToIndex ` set ms = {int i |i. bit (?t OR ?w) i} \<and>
            (\<forall>m\<in>set ms. \<exists>i<64. m = \<lparr>r = int (i div 8), c = int (i mod 8)\<rparr> \<and>
                                 \<not> bit (Occupied brd) i)"
    by blast
qed

theorem GetValidMoves_forced_set_witness:
  "GetWinningMoves \<lparr>P1 = 7, P2 = 0, P3 = 0, Occupied = 7\<rparr> 1 = 0 \<and>
   GetValidMoves \<lparr>P1 = 7, P2 = 0, P3 = 0, Occupied = 7\<rparr> 0 1 = None \<and>
   GetWinningMoves \<lparr>P1 = 7, P2 = 0, P3 = 0, Occupied = 7\<rparr> 0 \<noteq> 0 \<and>
   (\<exists>ms. GetValidMoves \<lparr>P1 = 7, P2 = 0, P3 = 0, Occupied = 7\<rparr> 1 0 = Some ms \<and>
         ToIndex ` set ms = {3})"
proof -
  let ?b = "\<lparr>P1 = 7, P2 = 0, P3 = 0, Occupied = 7\<rparr>"
  have w0: "GetWinningMoves ?b 0 = 8"
    by (simp add: GetWinningMoves_def GetPlayerBoard_def file_defs Let_def)
  have w1: "GetWinningMoves ?b 1 = 0"
    by (simp add: GetWinningMoves_def GetPlayerBoard_def file_defs Let_def)
  have "bit (8 :: Bitboard) i = (i = 3)" for i
    using bit_single_exp [of 3 i] by simp
  then have bits: "{int i |i. bit (8 :: Bitboard) i} = {3}"
    by simp
  from GetValidMoves_forced_set [of ?b 1 0] w1
  have a: "GetValidMoves ?b 0 1 = None" by blast
  from GetValidMoves_forced_set [of ?b 0 1] w0 w1 bits
  have b: "\<exists>ms. GetValidMoves ?b 1 0 = Some ms \<and> ToIndex ` set ms = {3}"
    by auto
  from w0 w1 a b show ?thesis by simp
qed

section \<open>Four in a row is read off the board, not off the bits\<close>

lemma checkwin_masks:
  "NOT (FileH OR drop_bit 1 FileH) = 0x3F3F3F3F3F3F3F3F"
  "NOT (FileH OR drop_bit 9 FileH) = 0x7F3F3F3F3F3F3F3F"
  "NOT (FileA OR drop_bit 7 FileA) = 0xFEFCFCFCFCFCFCFC"
  by (simp_all add: file_defs)

lemma edge_mask_bits:
  "\<forall>i\<in>{0..<64}.
     bit (0x7F3F3F3F3F3F3F3F :: Bitboard) i = (i mod 8 < 6 \<or> (62 \<le> i \<and> i < 63)) \<and>
     bit (0xFEFCFCFCFCFCFCFC :: Bitboard) i = (2 \<le> i mod 8 \<or> (57 \<le> i \<and> i < 58))"
  by code_simp

text \<open>
  The second masks of the two diagonal tests keep one more cell (G8, B8) than the masks of the
  lanes; a word shifted right by 18 or 14 has no bit that high.
\<close>

lemma diag_mask:
  "shr 18 0x7F3F3F3F3F3F3F3F w = shr 18 0x3F3F3F3F3F3F3F3F w"
proof (rule word64_eqI)
  fix i :: nat
  assume "i < 64"
  then have mem: "i \<in> {0..<64}" by simp
  have "bit (drop_bit 18 w) i \<Longrightarrow> i < 46"
    using bit_imp_le_length [of w "18 + i"] by (auto simp: bit_drop_bit_eq)
  with edge_mask_bits [THEN bspec, OF mem] mask_bits_all [THEN bspec, OF mem]
  show "bit (shr 18 0x7F3F3F3F3F3F3F3F w) i = bit (shr 18 0x3F3F3F3F3F3F3F3F w) i"
    by (auto simp: shr_def bit_and_iff)
qed

lemma anti_mask:
  "shr 14 0xFEFCFCFCFCFCFCFC w = shr 14 0xFCFCFCFCFCFCFCFC w"
proof (rule word64_eqI)
  fix i :: nat
  assume "i < 64"
  then have mem: "i \<in> {0..<64}" by simp
  have "bit (drop_bit 14 w) i \<Longrightarrow> i < 50"
    using bit_imp_le_length [of w "14 + i"] by (auto simp: bit_drop_bit_eq)
  with edge_mask_bits [THEN bspec, OF mem] mask_bits_all [THEN bspec, OF mem]
  show "bit (shr 14 0xFEFCFCFCFCFCFCFC w) i = bit (shr 14 0xFCFCFCFCFCFCFCFC w) i"
    by (auto simp: shr_def bit_and_iff)
qed

lemma nonzero_cell: "(w \<noteq> 0) = (\<exists>x y. cell_at w x y)" for w :: Bitboard
proof
  assume "w \<noteq> 0"
  have "\<exists>i<64. bit w i"
  proof (rule ccontr)
    assume "\<not> (\<exists>i<64. bit w i)"
    then have "w = 0" by (intro word64_eqI) simp
    with \<open>w \<noteq> 0\<close> show False by simp
  qed
  then obtain i where "i < 64" "bit w i" by blast
  then have "cell_at w (int i div 8) (int i mod 8)" by (simp add: bit_cell_at)
  then show "\<exists>x y. cell_at w x y" by blast
next
  assume "\<exists>x y. cell_at w x y"
  then obtain x y where "cell_at w x y" by blast
  then have "bit w (nat (x * 8 + y))" by (simp add: cell_at_def)
  then show "w \<noteq> 0" by auto
qed

text \<open>A pair of stones one step apart, as the first line of each test computes it.\<close>

lemma pair_h: "cell_at (b AND shr 1 0x7F7F7F7F7F7F7F7F b) u v = (cell_at b u v \<and> cell_at b u (v + 1))"
  by (simp only: cell_at_and lane_h_r1) (blast dest: cell_at_inb)

lemma pair_v: "cell_at (b AND drop_bit 8 b) u v = (cell_at b u v \<and> cell_at b (u + 1) v)"
  by (simp only: cell_at_and shift_v_r1) (blast dest: cell_at_inb)

lemma pair_d: "cell_at (b AND shr 9 0x7F7F7F7F7F7F7F7F b) u v = (cell_at b u v \<and> cell_at b (u + 1) (v + 1))"
  by (simp only: cell_at_and lane_d_r1) (blast dest: cell_at_inb)

lemma pair_a: "cell_at (b AND shr 7 0xFEFEFEFEFEFEFEFE b) u v = (cell_at b u v \<and> cell_at b (u + 1) (v - 1))"
  by (simp only: cell_at_and lane_a_r1) (blast dest: cell_at_inb)

lemma quad_h:
  "cell_at (h AND shr 2 0x3F3F3F3F3F3F3F3F h) u v = (cell_at h u v \<and> cell_at h u (v + 2))"
  by (simp only: cell_at_and lane_h_r2) (blast dest: cell_at_inb)

lemma quad_v:
  "cell_at (h AND drop_bit 16 h) u v = (cell_at h u v \<and> cell_at h (u + 2) v)"
  by (simp only: cell_at_and shift_v_r2) (blast dest: cell_at_inb)

lemma quad_d:
  "cell_at (h AND shr 18 0x3F3F3F3F3F3F3F3F h) u v = (cell_at h u v \<and> cell_at h (u + 2) (v + 2))"
  by (simp only: cell_at_and lane_d_r2) (blast dest: cell_at_inb)

lemma quad_a:
  "cell_at (h AND shr 14 0xFCFCFCFCFCFCFCFC h) u v = (cell_at h u v \<and> cell_at h (u + 2) (v - 2))"
  by (simp only: cell_at_and lane_a_r2) (blast dest: cell_at_inb)

lemma ite_or: "(if P then True else Q) = (P \<or> Q)"
  by simp

lemma CheckWin_words:
  "CheckWin bb =
     ((bb AND shr 1 0x7F7F7F7F7F7F7F7F bb) AND shr 2 0x3F3F3F3F3F3F3F3F (bb AND shr 1 0x7F7F7F7F7F7F7F7F bb) \<noteq> 0 \<or>
      (bb AND drop_bit 8 bb) AND drop_bit 16 (bb AND drop_bit 8 bb) \<noteq> 0 \<or>
      (bb AND shr 9 0x7F7F7F7F7F7F7F7F bb) AND shr 18 0x3F3F3F3F3F3F3F3F (bb AND shr 9 0x7F7F7F7F7F7F7F7F bb) \<noteq> 0 \<or>
      (bb AND shr 7 0xFEFEFEFEFEFEFEFE bb) AND shr 14 0xFCFCFCFCFCFCFCFC (bb AND shr 7 0xFEFEFEFEFEFEFEFE bb) \<noteq> 0 \<or>
      False)"
  unfolding CheckWin_def Let_def checkwin_masks go_masks shr_def [symmetric] diag_mask anti_mask
    ite_or
  by (rule refl)

lemma run_h:
  "((b AND shr 1 0x7F7F7F7F7F7F7F7F b) AND shr 2 0x3F3F3F3F3F3F3F3F (b AND shr 1 0x7F7F7F7F7F7F7F7F b) \<noteq> 0)
   = (\<exists>x y. cell_at b x y \<and> cell_at b x (y + 1) \<and> cell_at b x (y + 2) \<and> cell_at b x (y + 3))"
  unfolding nonzero_cell quad_h pair_h by (simp add: add.assoc)

lemma run_v:
  "((b AND drop_bit 8 b) AND drop_bit 16 (b AND drop_bit 8 b) \<noteq> 0)
   = (\<exists>x y. cell_at b x y \<and> cell_at b (x + 1) y \<and> cell_at b (x + 2) y \<and> cell_at b (x + 3) y)"
  unfolding nonzero_cell quad_v pair_v by (simp add: add.assoc)

lemma run_d:
  "((b AND shr 9 0x7F7F7F7F7F7F7F7F b) AND shr 18 0x3F3F3F3F3F3F3F3F (b AND shr 9 0x7F7F7F7F7F7F7F7F b) \<noteq> 0)
   = (\<exists>x y. cell_at b x y \<and> cell_at b (x + 1) (y + 1) \<and> cell_at b (x + 2) (y + 2) \<and>
            cell_at b (x + 3) (y + 3))"
  unfolding nonzero_cell quad_d pair_d by (simp add: add.assoc)

lemma run_a:
  "((b AND shr 7 0xFEFEFEFEFEFEFEFE b) AND shr 14 0xFCFCFCFCFCFCFCFC (b AND shr 7 0xFEFEFEFEFEFEFEFE b) \<noteq> 0)
   = (\<exists>x y. cell_at b x y \<and> cell_at b (x + 1) (y - 1) \<and> cell_at b (x + 2) (y - 2) \<and>
            cell_at b (x + 3) (y - 3))"
  unfolding nonzero_cell quad_a pair_a by (simp add: add.assoc)

text \<open>
  C6. CheckWin accepts a stone set exactly when it holds four stones in a line on the board:
  four cells of one row in consecutive columns, four of one column in consecutive rows, or
  four along a diagonal or an anti-diagonal, every one of them inside the 8 by 8 board. A run
  of consecutive bits that crosses a board edge is therefore never accepted: the stones G1,
  H1, A2, B2 (bits 6 to 9) are refused, and the anti-diagonal H1, G2, F3, E4 (bits 7, 14,
  21, 28) is accepted.
\<close>

theorem CheckWin_no_wrap:
  "CheckWin bb =
     ((\<exists>x y. cell_at bb x y \<and> cell_at bb x (y + 1) \<and> cell_at bb x (y + 2) \<and>
             cell_at bb x (y + 3)) \<or>
      (\<exists>x y. cell_at bb x y \<and> cell_at bb (x + 1) y \<and> cell_at bb (x + 2) y \<and>
             cell_at bb (x + 3) y) \<or>
      (\<exists>x y. cell_at bb x y \<and> cell_at bb (x + 1) (y + 1) \<and> cell_at bb (x + 2) (y + 2) \<and>
             cell_at bb (x + 3) (y + 3)) \<or>
      (\<exists>x y. cell_at bb x y \<and> cell_at bb (x + 1) (y - 1) \<and> cell_at bb (x + 2) (y - 2) \<and>
             cell_at bb (x + 3) (y - 3)))
   \<and> \<not> CheckWin 0x00000000000003C0
   \<and> CheckWin (push_bit 7 1 OR push_bit 14 1 OR push_bit 21 1 OR push_bit 28 1)"
proof (intro conjI)
  show "CheckWin bb =
     ((\<exists>x y. cell_at bb x y \<and> cell_at bb x (y + 1) \<and> cell_at bb x (y + 2) \<and>
             cell_at bb x (y + 3)) \<or>
      (\<exists>x y. cell_at bb x y \<and> cell_at bb (x + 1) y \<and> cell_at bb (x + 2) y \<and>
             cell_at bb (x + 3) y) \<or>
      (\<exists>x y. cell_at bb x y \<and> cell_at bb (x + 1) (y + 1) \<and> cell_at bb (x + 2) (y + 2) \<and>
             cell_at bb (x + 3) (y + 3)) \<or>
      (\<exists>x y. cell_at bb x y \<and> cell_at bb (x + 1) (y - 1) \<and> cell_at bb (x + 2) (y - 2) \<and>
             cell_at bb (x + 3) (y - 3)))"
    unfolding CheckWin_words run_h run_v run_d run_a by simp
  show "\<not> CheckWin 0x00000000000003C0"
    by (simp add: CheckWin_def file_defs Let_def)
  show "CheckWin (push_bit 7 1 OR push_bit 14 1 OR push_bit 21 1 OR push_bit 28 1)"
    by (simp add: CheckWin_def file_defs Let_def)
qed

section \<open>Random playout (RunSimulation)\<close>

text \<open>
  What one pass through the loop body does: return the result map, or go round again with
  a new board, player list and player to move.
\<close>

text \<open>
  The result maps RunSimulation builds are \<open>map[int]float64{id: 1.0}\<close>, here \<open>Reward id\<close>,
  and the empty map, here \<open>NoReward\<close>.
\<close>

datatype sim_result = Reward int | NoReward

datatype sim_step = Return sim_result | Continue Board "int list" int

text \<open>
  The mask of cells the mover may play: the forced set when the next player threatens to
  win, every empty cell otherwise.
\<close>

definition movesBitboard_of :: "Board \<Rightarrow> int \<Rightarrow> int \<Rightarrow> Bitboard" where
  "movesBitboard_of simBoard nextP cur =
     (let threats = GetWinningMoves simBoard nextP;
          myWins = GetWinningMoves simBoard cur
      in if threats \<noteq> 0 then threats OR myWins else NOT (Occupied simBoard))"

text \<open>
  The choice of the cell: \<open>pick := rand.Intn(count)\<close>, then \<open>temp &= temp - 1\<close> that many
  times, then the lowest set bit of what is left. \<open>rnd\<close> is the number the generator
  delivers, and \<open>rand.Intn(count)\<close> is \<open>rnd mod count\<close>, a value from 0 to \<open>count - 1\<close>.
\<close>

definition selectedIdx_of :: "nat \<Rightarrow> nat \<Rightarrow> Bitboard \<Rightarrow> nat" where
  "selectedIdx_of rnd count movesBitboard =
     (let pick = rnd mod count;
          temp = ((\<lambda>t. t AND (t - 1)) ^^ pick) movesBitboard
      in TrailingZeros64 temp)"

text \<open>One pass through the loop body.\<close>

definition sim_iter :: "nat \<Rightarrow> Board \<Rightarrow> int list \<Rightarrow> int \<Rightarrow> go_panic + sim_step" where
  "sim_iter rnd simBoard simPlayers cur =
     (if length simPlayers = 1 then Inr (Return (Reward (simPlayers ! 0)))
      else if simPlayers = [] then Inl DivideByZero
      else
        let pIdx = indexOf cur simPlayers;
            nextP = simPlayers ! ((pIdx + 1) mod length simPlayers);
            movesBitboard = movesBitboard_of simBoard nextP cur
        in if movesBitboard = 0 then Inr (Return NoReward)
           else
             let count = OnesCount64 movesBitboard
             in if count = 0 then Inr (Return NoReward)
                else
                  let selectedIdx = selectedIdx_of rnd count movesBitboard
                  in case Board_Set simBoard (int selectedIdx) cur of
                       Inl e \<Rightarrow> Inl e
                     | Inr simBoard' \<Rightarrow>
                         if CheckWin (GetPlayerBoard simBoard' cur)
                         then Inr (Return (Reward cur))
                         else if CheckLose (GetPlayerBoard simBoard' cur)
                         then
                           let simPlayers' = removeAt pIdx simPlayers
                           in if length simPlayers' = 1
                              then Inr (Return (Reward (simPlayers' ! 0)))
                              else
                                let pIdx' = (if pIdx \<ge> length simPlayers' then 0 else pIdx)
                                in Inr (Continue simBoard' simPlayers' (simPlayers' ! pIdx'))
                         else Inr (Continue simBoard' simPlayers
                                     (simPlayers ! ((pIdx + 1) mod length simPlayers))))"

lemma count_remove:
  assumes "\<And>i. i < 64 \<Longrightarrow> bit y i = (bit x i \<and> i \<noteq> n)" "n < 64" "bit x n"
  shows "OnesCount64 x = Suc (OnesCount64 y)"
proof -
  have g: "distinct xs \<Longrightarrow> n \<in> set xs \<Longrightarrow> Q n \<Longrightarrow>
           length (filter Q xs) = Suc (length (filter (\<lambda>i. Q i \<and> i \<noteq> n) xs))"
    for Q :: "nat \<Rightarrow> bool" and xs
  proof (induction xs)
    case Nil
    then show ?case by simp
  next
    case (Cons a xs)
    show ?case
    proof (cases "a = n")
      case True
      with Cons.prems have "n \<notin> set xs" by simp
      then have "filter (\<lambda>i. Q i \<and> i \<noteq> n) xs = filter Q xs"
        by (intro filter_cong) auto
      with True Cons.prems show ?thesis by simp
    next
      case False
      with Cons show ?thesis by simp
    qed
  qed
  have "filter (bit y) [0..<64] = filter (\<lambda>i. bit x i \<and> i \<noteq> n) [0..<64]"
    by (intro filter_cong) (auto simp: assms(1))
  with g [of "[0..<64]" "bit x"] assms(2,3) show ?thesis
    by (simp add: OnesCount64_def)
qed

lemma OnesCount64_0: "OnesCount64 0 = 0"
  by (simp add: OnesCount64_def)

lemma bit_push_drop:
  "i < 64 \<Longrightarrow> bit (push_bit m (drop_bit m t)) i = (m \<le> i \<and> bit t i)" for t :: Bitboard
  by (auto simp: bit_push_bit_iff bit_drop_bit_eq)

text \<open>\<open>t & (t - 1)\<close> clears the lowest set bit.\<close>

lemma clear_lowest:
  assumes "t \<noteq> 0" "i < 64"
  shows "bit (t AND (t - 1)) i = (bit t i \<and> i \<noteq> TrailingZeros64 t)"
proof -
  let ?n = "TrailingZeros64 t"
  let ?q = "drop_bit (Suc ?n) t"
  note tz = tz_props [OF assms(1)]
  have low: "take_bit (Suc ?n) t = 2 ^ ?n"
  proof (rule word64_eqI)
    fix j :: nat
    assume "j < 64"
    with tz show "bit (take_bit (Suc ?n) t) j = bit (2 ^ ?n :: Bitboard) j"
      by (auto simp: bit_take_bit_iff bit_single_exp less_Suc_eq)
  qed
  have "t = push_bit (Suc ?n) ?q + take_bit (Suc ?n) t"
    by (rule bits_ident [symmetric])
  then have "t = push_bit (Suc ?n) ?q + 2 ^ ?n"
    unfolding low .
  then have "t - 1 = push_bit (Suc ?n) ?q + 2 ^ ?n - 1"
    by (rule arg_cong)
  then have "t - 1 = push_bit (Suc ?n) ?q + (2 ^ ?n - 1)"
    by (simp only: add_diff_eq)
  then have "t - 1 = push_bit (Suc ?n) ?q + mask ?n"
    by (simp add: mask_eq_exp_minus_1)
  moreover have "push_bit (Suc ?n) ?q AND mask ?n = 0"
  proof (rule word64_eqI)
    fix j :: nat
    assume "j < 64"
    from bit_push_drop [OF this, of "Suc ?n" t]
    show "bit (push_bit (Suc ?n) ?q AND mask ?n) j = bit (0 :: Bitboard) j"
      by (simp add: bit_and_iff bit_mask_iff)
  qed
  ultimately have "t - 1 = push_bit (Suc ?n) ?q OR mask ?n"
    by (simp add: disjunctive_add_eq_or)
  then have "bit (t - 1) i = (bit (push_bit (Suc ?n) ?q) i \<or> bit (mask ?n :: Bitboard) i)"
    by (simp add: bit_or_iff)
  also have "\<dots> = ((Suc ?n \<le> i \<and> bit t i) \<or> i < ?n)"
    using assms(2) bit_push_drop [OF assms(2), of "Suc ?n" t] by (simp add: bit_mask_iff)
  finally have "bit (t - 1) i = ((Suc ?n \<le> i \<and> bit t i) \<or> i < ?n)" .
  with tz(3) [of i] show ?thesis
    by (auto simp: bit_and_iff)
qed

lemma clear_lowest_count:
  assumes "t \<noteq> 0"
  shows "OnesCount64 t = Suc (OnesCount64 (t AND (t - 1)))"
  using clear_lowest [OF assms] tz_props(1,2) [OF assms]
  by (intro count_remove [where n = "TrailingZeros64 t"]) auto

lemma pick_bits:
  assumes "pick < OnesCount64 m"
  shows "OnesCount64 (((\<lambda>t. t AND (t - 1)) ^^ pick) m) = OnesCount64 m - pick"
    and "bit (((\<lambda>t. t AND (t - 1)) ^^ pick) m) i \<Longrightarrow> bit m i"
  using assms
proof (induction pick)
  case 0
  {
    case 1 show ?case by simp
  next
    case 2 then show ?case by simp
  }
next
  case (Suc pick)
  let ?t = "((\<lambda>t. t AND (t - 1)) ^^ pick) m"
  {
    case 1
    then have c: "OnesCount64 ?t = OnesCount64 m - pick" using Suc.IH(1) by simp
    with 1 have "?t \<noteq> 0" using OnesCount64_0 by fastforce
    from clear_lowest_count [OF this] c 1 show ?case by simp
  next
    case 2
    then show ?case using Suc.IH(2) by (simp add: bit_and_iff)
  }
qed


lemma wins_are_empty: "bit (GetWinningMoves b p) i \<Longrightarrow> \<not> bit (Occupied b) i"
  by (simp add: go_expr bit_and_iff bit_not_iff)

lemma moves_are_empty: "bit (movesBitboard_of b nextP cur) i \<Longrightarrow> \<not> bit (Occupied b) i"
  by (auto simp: movesBitboard_of_def Let_def bit_or_iff bit_not_iff
      dest: wins_are_empty split: if_splits)

lemma selected_is_move:
  assumes "OnesCount64 m \<noteq> 0"
  shows "selectedIdx_of rnd (OnesCount64 m) m < 64" "bit m (selectedIdx_of rnd (OnesCount64 m) m)"
proof -
  let ?pick = "rnd mod OnesCount64 m"
  let ?temp = "((\<lambda>t. t AND (t - 1)) ^^ ?pick) m"
  from assms have lt: "?pick < OnesCount64 m" by simp
  then have "OnesCount64 ?temp = OnesCount64 m - ?pick" by (rule pick_bits(1))
  with lt have "OnesCount64 ?temp \<noteq> 0" by simp
  then have ne: "?temp \<noteq> 0" using OnesCount64_0 by auto
  from tz_props(1) [OF ne] show "selectedIdx_of rnd (OnesCount64 m) m < 64"
    by (simp add: selectedIdx_of_def Let_def)
  from tz_props(2) [OF ne] have "bit m (TrailingZeros64 ?temp)"
    by (rule pick_bits(2) [OF lt])
  then show "bit m (selectedIdx_of rnd (OnesCount64 m) m)"
    by (simp add: selectedIdx_of_def Let_def)
qed

lemma Board_Set_Occupied:
  "Board_Set b (int i) p = Inr b' \<Longrightarrow> Occupied b' = Occupied b OR push_bit i 1"
  by (auto simp: Board_Set_def Let_def split: if_splits)

lemma Board_Set_nat: "\<exists>b'. Board_Set b (int i) p = Inr b'"
  by (simp add: Board_Set_def Let_def)

lemma occupy_decreases:
  assumes "i < 64" "\<not> bit occ i"
  shows "OnesCount64 (NOT (occ OR push_bit i 1)) < OnesCount64 (NOT occ)"
proof -
  have "OnesCount64 (NOT occ) = Suc (OnesCount64 (NOT (occ OR push_bit i 1)))"
    using assms
    by (intro count_remove [where n = i]) (auto simp: bit_not_iff bit_or_iff bit_and_iff bit_single_exp)
  then show ?thesis by simp
qed

text \<open>
  A pass that does not return puts a stone on a cell that was empty, so it leaves fewer
  empty cells, and it hands on at least two players.
\<close>

lemma sim_iter_Continue:
  assumes "sim_iter rnd b ps cur = Inr (Continue b' ps' cur')"
  shows "OnesCount64 (NOT (Occupied b')) < OnesCount64 (NOT (Occupied b))"
    and "2 \<le> length ps'"
    and "\<exists>i<64. \<not> bit (Occupied b) i \<and> Occupied b' = Occupied b OR push_bit i 1"
proof -
  let ?pIdx = "indexOf cur ps"
  let ?nextP = "ps ! ((?pIdx + 1) mod length ps)"
  let ?m = "movesBitboard_of b ?nextP cur"
  let ?sel = "selectedIdx_of rnd (OnesCount64 ?m) ?m"
  from assms have ps: "length ps \<noteq> 1" "ps \<noteq> []" and cnt: "OnesCount64 ?m \<noteq> 0"
    by (auto simp: sim_iter_def Let_def split: if_splits)
  from ps have len: "2 \<le> length ps" by (cases ps) (auto simp: Suc_le_eq)
  from assms ps cnt have set: "Board_Set b (int ?sel) cur = Inr b'"
    by (auto simp: sim_iter_def Let_def split: if_splits sum.splits)
  from selected_is_move [OF cnt] have sel: "?sel < 64" "\<not> bit (Occupied b) ?sel"
    by (auto dest: moves_are_empty)
  then show "OnesCount64 (NOT (Occupied b')) < OnesCount64 (NOT (Occupied b))"
    using Board_Set_Occupied [OF set] occupy_decreases by simp
  from sel Board_Set_Occupied [OF set]
  show "\<exists>i<64. \<not> bit (Occupied b) i \<and> Occupied b' = Occupied b OR push_bit i 1"
    by blast
  from ps have "?pIdx < length ps"
    by (cases "cur \<in> set ps") (auto simp: indexOf_less, cases ps, auto)
  then have "length (removeAt ?pIdx ps) = length ps - 1" by (rule length_removeAt)
  with assms ps cnt set len show "2 \<le> length ps'"
    by (auto simp: sim_iter_def Let_def split: if_splits)
qed

lemma Board_Set_no_panic: "Board_Set b (int i) p \<noteq> Inl e"
  by (simp add: Board_Set_def Let_def)

lemma sim_iter_no_panic: "ps \<noteq> [] \<Longrightarrow> \<exists>s. sim_iter rnd b ps cur = Inr s"
  by (auto simp: sim_iter_def Let_def Board_Set_no_panic split: sum.splits)

text \<open>
  The loop \<open>for { ... }\<close> of RunSimulation; \<open>rand n\<close> is what the generator delivers in pass
  \<open>n\<close>. The measure is the number of empty cells.
\<close>

function RunSimulation_loop ::
  "(nat \<Rightarrow> nat) \<Rightarrow> nat \<Rightarrow> Board \<Rightarrow> int list \<Rightarrow> int \<Rightarrow> go_panic + sim_result" where
  "RunSimulation_loop rand n simBoard simPlayers cur =
     (case sim_iter (rand n) simBoard simPlayers cur of
        Inl e \<Rightarrow> Inl e
      | Inr (Return res) \<Rightarrow> Inr res
      | Inr (Continue simBoard' simPlayers' cur') \<Rightarrow>
          RunSimulation_loop rand (Suc n) simBoard' simPlayers' cur')"
  by pat_completeness auto
termination
proof (relation "measure (\<lambda>(rand, n, simBoard, simPlayers, cur). OnesCount64 (NOT (Occupied simBoard)))")
  show "wf (measure (\<lambda>(rand, n, simBoard, simPlayers, cur). OnesCount64 (NOT (Occupied simBoard))))"
    by simp
next
  fix rand :: "nat \<Rightarrow> nat" and n simBoard simPlayers cur x2 x21 x22 x23
  assume "sim_iter (rand n) simBoard simPlayers cur = Inr x2" "x2 = Continue x21 x22 x23"
  then have "OnesCount64 (NOT (Occupied x21)) < OnesCount64 (NOT (Occupied simBoard))"
    using sim_iter_Continue(1) by blast
  then show "((rand, Suc n, x21, x22, x23), rand, n, simBoard, simPlayers, cur)
             \<in> measure (\<lambda>(rand, n, simBoard, simPlayers, cur). OnesCount64 (NOT (Occupied simBoard)))"
    by simp
qed

declare RunSimulation_loop.simps [simp del]

definition RunSimulation :: "(nat \<Rightarrow> nat) \<Rightarrow> Board \<Rightarrow> int list \<Rightarrow> int \<Rightarrow> go_panic + sim_result" where
  "RunSimulation rand brd players currentID = RunSimulation_loop rand 0 brd players currentID"

lemma RunSimulation_loop_returns:
  "simPlayers \<noteq> [] \<Longrightarrow> \<exists>res. RunSimulation_loop rand n simBoard simPlayers cur = Inr res"
proof (induction rand n simBoard simPlayers cur rule: RunSimulation_loop.induct)
  case (1 rand n simBoard simPlayers cur)
  from sim_iter_no_panic [OF "1.prems"] obtain s
    where s: "sim_iter (rand n) simBoard simPlayers cur = Inr s" by blast
  show ?case
  proof (cases s)
    case (Return res)
    with s show ?thesis
      by (simp add: RunSimulation_loop.simps [of rand n simBoard simPlayers cur])
  next
    case (Continue b' ps' cur')
    with s sim_iter_Continue(2) have "ps' \<noteq> []" by fastforce
    from "1.IH" [OF s Continue this] Continue s show ?thesis
      by (simp add: RunSimulation_loop.simps [of rand n simBoard simPlayers cur])
  qed
qed


text \<open>
  C10. RunSimulation returns. One pass through its loop either returns a result or puts a
  stone on a cell that was empty, which leaves fewer empty cells and at least two players;
  the loop is defined by recursion on the number of empty cells. Started with a nonempty
  list of players it ends with a result map and not with a panic, whatever the random
  numbers are and whether or not the player to move is in the list.
\<close>

theorem RunSimulation_terminates:
  "(players \<noteq> [] \<longrightarrow> (\<exists>res. RunSimulation rand brd players currentID = Inr res)) \<and>
   (sim_iter rnd brd players currentID = Inr (Continue brd' players' cur') \<longrightarrow>
      OnesCount64 (NOT (Occupied brd')) < OnesCount64 (NOT (Occupied brd)) \<and>
      players' \<noteq> [] \<and>
      (\<exists>i<64. \<not> bit (Occupied brd) i \<and> Occupied brd' = Occupied brd OR push_bit i 1))"
proof (intro conjI impI)
  assume "players \<noteq> []"
  then show "\<exists>res. RunSimulation rand brd players currentID = Inr res"
    unfolding RunSimulation_def by (rule RunSimulation_loop_returns)
next
  assume a: "sim_iter rnd brd players currentID = Inr (Continue brd' players' cur')"
  from sim_iter_Continue(1) [OF a]
  show "OnesCount64 (NOT (Occupied brd')) < OnesCount64 (NOT (Occupied brd))" .
  from sim_iter_Continue(2) [OF a] show "players' \<noteq> []" by auto
  from sim_iter_Continue(3) [OF a]
  show "\<exists>i<64. \<not> bit (Occupied brd) i \<and> Occupied brd' = Occupied brd OR push_bit i 1" .
qed

lemma first_pass:
  "sim_iter 0 emptyBoard [0, 1, 2] 0
   = Inr (Continue \<lparr>P1 = 1, P2 = 0, P3 = 0, Occupied = 1\<rparr> [0, 1, 2] 1)"
  by code_simp

theorem RunSimulation_terminates_witness:
  "[0, 1, 2 :: int] \<noteq> [] \<and>
   (\<exists>res. RunSimulation (\<lambda>n. 0) emptyBoard [0, 1, 2] 0 = Inr res) \<and>
   sim_iter 0 emptyBoard [0, 1, 2] 0
     = Inr (Continue \<lparr>P1 = 1, P2 = 0, P3 = 0, Occupied = 1\<rparr> [0, 1, 2] 1) \<and>
   OnesCount64 (NOT (Occupied \<lparr>P1 = 1, P2 = 0, P3 = 0, Occupied = 1\<rparr>))
     < OnesCount64 (NOT (Occupied emptyBoard))"
  using RunSimulation_terminates
    [of "[0, 1, 2]" "\<lambda>n. 0" emptyBoard 0 0 "\<lparr>P1 = 1, P2 = 0, P3 = 0, Occupied = 1\<rparr>" "[0, 1, 2]" 1]
    first_pass
  by simp

section \<open>The browser interface (main_wasm.go)\<close>

text \<open>
  The state the interface keeps in \<open>currentGS\<close>. Its type is declared outside the files at
  hand; the fields are the ones main_wasm.go and ui_cli.go read and write. The board is the
  record above, with \<open>P1\<close>, \<open>P2\<close>, \<open>P3\<close> for \<open>P[0]\<close>, \<open>P[1]\<close>, \<open>P[2]\<close>.
\<close>

record GameState =
  Board :: Board
  PlayerID :: int
  ActiveMask :: "8 word"
  Hash :: "64 word"
  WinnerID :: int

text \<open>
  What a call returns to JavaScript: \<open>js.ValueOf(false)\<close>, the decimal string of a hash, or
  a cell index.
\<close>

datatype js_value = JSBool bool | JSHashString "64 word" | JSInt int

text \<open>
  \<open>Bitboard(1 << uint(idx))\<close>: the shift count is \<open>idx\<close> converted to an unsigned 64-bit
  number, and the 1 has type Bitboard, so a count of 64 or more gives 0.
\<close>

definition cell_mask :: "int \<Rightarrow> Bitboard" where
  "cell_mask idx = push_bit (nat (idx mod 2 ^ 64)) 1"

text \<open>
  \<open>applyMove\<close>. The methods \<open>ActiveIDs\<close> and \<open>ApplyMove\<close> of the state and the function
  \<open>GetForcedMoves\<close> are not in the files at hand and are parameters here; \<open>args\<close> are the
  numbers JavaScript passes. The result is the value returned and the new \<open>currentGS\<close>.
\<close>

definition applyMove ::
  "(GameState \<Rightarrow> int list) \<Rightarrow> (Board \<Rightarrow> int list \<Rightarrow> nat \<Rightarrow> Bitboard) \<Rightarrow>
   (GameState \<Rightarrow> Move \<Rightarrow> GameState) \<Rightarrow> GameState \<Rightarrow> int list \<Rightarrow> js_value \<times> GameState" where
  "applyMove ActiveIDs GetForcedMoves ApplyMove currentGS args =
     (if length args < 1 then (JSBool False, currentGS)
      else
        let idx = args ! 0;
            mask = cell_mask idx
        in if Occupied (Board currentGS) AND mask \<noteq> 0 then (JSBool False, currentGS)
           else
             let activeIDs = ActiveIDs currentGS;
                 turnIdx = indexOf (PlayerID currentGS) activeIDs;
                 forced = GetForcedMoves (Board currentGS) activeIDs turnIdx
             in if forced \<noteq> 0 \<and> forced AND cell_mask idx = 0 then (JSBool False, currentGS)
                else
                  let move = MoveFromIndex idx;
                      currentGS' = ApplyMove currentGS move
                  in (JSHashString (Hash currentGS'), currentGS'))"

text \<open>\<open>getForcedMoves\<close>, the mask the interface reports for the state.\<close>

definition forced_of ::
  "(GameState \<Rightarrow> int list) \<Rightarrow> (Board \<Rightarrow> int list \<Rightarrow> nat \<Rightarrow> Bitboard) \<Rightarrow> GameState \<Rightarrow> Bitboard" where
  "forced_of ActiveIDs GetForcedMoves currentGS =
     (let activeIDs = ActiveIDs currentGS;
          turnIdx = indexOf (PlayerID currentGS) activeIDs
      in GetForcedMoves (Board currentGS) activeIDs turnIdx)"

lemma cell_mask_bit:
  assumes "0 \<le> idx" "idx < 64"
  shows "(w AND cell_mask idx \<noteq> 0) = bit w (nat idx)"
proof -
  from assms have "idx mod 2 ^ 64 = idx" by simp
  then show ?thesis
    by (simp add: cell_mask_def and_exp_eq_0_iff_not_bit)
qed

text \<open>
  C7. For a cell index from 0 to 63, applyMove returns false exactly when the cell is
  occupied, or when the forced-move mask is not zero and does not hold the cell; whenever it
  returns false (also for a number that is no cell index, where the occupancy test sees the
  mask 0) the state is the one it was called with. This holds whatever the three functions
  outside the files compute.
\<close>

theorem applyMove_rejects:
  "(0 \<le> idx \<and> idx < 64 \<longrightarrow>
      (fst (applyMove activeFn forcedFn applyFn gs [idx]) = JSBool False)
      = (bit (Occupied (Board gs)) (nat idx) \<or>
         (forced_of activeFn forcedFn gs \<noteq> 0 \<and>
          \<not> bit (forced_of activeFn forcedFn gs) (nat idx)))) \<and>
   ((fst (applyMove activeFn forcedFn applyFn gs [idx]) = JSBool False)
      = (Occupied (Board gs) AND cell_mask idx \<noteq> 0 \<or>
         (forced_of activeFn forcedFn gs \<noteq> 0 \<and>
          forced_of activeFn forcedFn gs AND cell_mask idx = 0))) \<and>
   (fst (applyMove activeFn forcedFn applyFn gs [idx]) = JSBool False \<longrightarrow>
      snd (applyMove activeFn forcedFn applyFn gs [idx]) = gs) \<and>
   (fst (applyMove activeFn forcedFn applyFn gs [idx]) \<noteq> JSBool False \<longrightarrow>
      snd (applyMove activeFn forcedFn applyFn gs [idx]) = applyFn gs (MoveFromIndex idx))"
proof -
  let ?r = "applyMove activeFn forcedFn applyFn gs [idx]"
  let ?f = "forced_of activeFn forcedFn gs"
  have m: "(fst ?r = JSBool False)
           = (Occupied (Board gs) AND cell_mask idx \<noteq> 0 \<or> (?f \<noteq> 0 \<and> ?f AND cell_mask idx = 0))"
    by (auto simp: applyMove_def forced_of_def Let_def)
  have b: "(fst ?r = JSBool False)
           = (bit (Occupied (Board gs)) (nat idx) \<or> (?f \<noteq> 0 \<and> \<not> bit ?f (nat idx)))"
    if "0 \<le> idx \<and> idx < 64"
    using that cell_mask_bit [of idx "Occupied (Board gs)"] cell_mask_bit [of idx ?f]
    unfolding m by auto
  have u: "snd ?r = gs" if "fst ?r = JSBool False"
    using that by (auto simp: applyMove_def Let_def split: if_splits)
  have a: "snd ?r = applyFn gs (MoveFromIndex idx)" if "fst ?r \<noteq> JSBool False"
    using that by (auto simp: applyMove_def Let_def split: if_splits)
  from m b u a show ?thesis by blast
qed

section \<open>The search entry point (GetMoveWithContext)\<close>

text \<open>
  \<open>GetPossibleMoves\<close> of a node: nothing for a decided node, for no players or for a player to
  move who is not among them; the forced moves when there are any; every empty cell
  otherwise, lowest index first.
\<close>

definition GetPossibleMoves :: "Board \<Rightarrow> int \<Rightarrow> int list \<Rightarrow> int \<Rightarrow> Move list" where
  "GetPossibleMoves brd playerToMoveID remaining winner =
     (if winner \<noteq> -1 then []
      else if remaining = [] then []
      else if playerToMoveID \<notin> set remaining then []
      else
        let currIdx = indexOf playerToMoveID remaining;
            nextID = remaining ! ((currIdx + 1) mod length remaining)
        in case GetValidMoves brd playerToMoveID nextID of
             None \<Rightarrow> moves_loop (NOT (Occupied brd)) []
           | Some validMoves \<Rightarrow> validMoves)"

text \<open>
  The part of the root node that decides the move returned: its untried moves and its
  children, each child edge with the visit count of the child, in the order of expansion.
\<close>

record MCTSRoot =
  untriedMoves :: "Move list"
  children :: "(Move \<times> int) list"

text \<open>
  The loop over \<open>root.children\<close> that keeps the first entry with more visits than every
  entry before it. The argument lists the entries in the order in which the \<open>range\<close> over
  the map delivers them.
\<close>

definition best_child :: "(Move \<times> int) list \<Rightarrow> Move" where
  "best_child entries =
     snd (foldl (\<lambda>(bestVisits, bestMove) (m, visits).
                   if visits > bestVisits then (visits, m) else (bestVisits, bestMove))
                (-1, \<lparr>r = 0, c = 0\<rparr>) entries)"

text \<open>
  \<open>GetMoveWithContext\<close>. Two things are parameters. \<open>iteration i\<close> is what pass \<open>i\<close> of the
  iteration loop does to the root (selection by floating-point scores, expansion with
  math/rand, playout, back-propagation); the loop makes the passes \<open>0\<close> to \<open>iterations - 1\<close>,
  none for a count of 0 or less. \<open>range_order\<close> is the order in which Go's \<open>range\<close> delivers the entries
  of the map \<open>root.children\<close>, which the language leaves open.
\<close>

definition root_after ::
  "(nat \<Rightarrow> MCTSRoot \<Rightarrow> MCTSRoot) \<Rightarrow> int \<Rightarrow> Board \<Rightarrow> Move list \<Rightarrow> int list \<Rightarrow> int \<Rightarrow>
   MCTSRoot" where
  "root_after iteration iterations brd forcedMoves players turnIdx =
     (let root = \<lparr>untriedMoves = GetPossibleMoves brd (players ! nat turnIdx) players (-1),
                  children = []\<rparr>;
          root = (if forcedMoves \<noteq> [] then root\<lparr>untriedMoves := forcedMoves\<rparr> else root)
      in foldl (\<lambda>root i. iteration i root) root [0..<nat iterations])"

definition GetMoveWithContext ::
  "(nat \<Rightarrow> MCTSRoot \<Rightarrow> MCTSRoot) \<Rightarrow> ((Move \<times> int) list \<Rightarrow> (Move \<times> int) list) \<Rightarrow> int \<Rightarrow>
   Board \<Rightarrow> Move list \<Rightarrow> int list \<Rightarrow> int \<Rightarrow> go_panic + Move" where
  "GetMoveWithContext iteration range_order iterations brd forcedMoves players turnIdx =
     (if turnIdx < 0 \<or> int (length players) \<le> turnIdx then Inl IndexOutOfRange
      else
        let root = root_after iteration iterations brd forcedMoves players turnIdx
        in if children root = []
           then (if forcedMoves \<noteq> [] then Inr (forcedMoves ! 0)
                 else let emptyBB = NOT (Occupied brd)
                      in if emptyBB \<noteq> 0
                         then Inr (MoveFromIndex (int (TrailingZeros64 emptyBB)))
                         else Inr \<lparr>r = 0, c = 0\<rparr>)
           else Inr (best_child (range_order (children root))))"

text \<open>
  The search as the game loop of squava.go calls it: the forced moves come from
  GetValidMoves for the player at \<open>turnIdx\<close> and the one after, and \<open>nil\<close> is the empty list.
\<close>

definition search_GetMove ::
  "(nat \<Rightarrow> MCTSRoot \<Rightarrow> MCTSRoot) \<Rightarrow> ((Move \<times> int) list \<Rightarrow> (Move \<times> int) list) \<Rightarrow> int \<Rightarrow>
   Board \<Rightarrow> int list \<Rightarrow> nat \<Rightarrow> go_panic + Move" where
  "search_GetMove iteration range_order iterations brd activeIDs turnIdx =
     (if length activeIDs \<le> turnIdx then Inl IndexOutOfRange
      else
        let forcedMoves =
              (case GetValidMoves brd (activeIDs ! turnIdx)
                      (activeIDs ! ((turnIdx + 1) mod length activeIDs)) of
                 None \<Rightarrow> []
               | Some ms \<Rightarrow> ms)
        in GetMoveWithContext iteration range_order iterations brd forcedMoves activeIDs
             (int turnIdx))"

text \<open>
  \<open>getBestMove\<close>. \<open>GetMove\<close> is the search of the player that getBestMove creates, called with
  the iteration count, the board, the active players and the index of the mover.
\<close>

definition getBestMove ::
  "(GameState \<Rightarrow> int list) \<Rightarrow> (Board \<Rightarrow> int list \<Rightarrow> nat \<Rightarrow> Bitboard) \<Rightarrow>
   (int \<Rightarrow> Board \<Rightarrow> int list \<Rightarrow> nat \<Rightarrow> go_panic + Move) \<Rightarrow> GameState \<Rightarrow> int list \<Rightarrow>
   go_panic + js_value" where
  "getBestMove ActiveIDs GetForcedMoves GetMove currentGS args =
     (let iterations = (if length args > 0 then args ! 0 else 10000);
          activeIDs = ActiveIDs currentGS;
          turnIdx = indexOf (PlayerID currentGS) activeIDs;
          forced = GetForcedMoves (Board currentGS) activeIDs turnIdx
      in if forced \<noteq> 0 \<and> OnesCount64 forced = 1
         then Inr (JSInt (int (TrailingZeros64 forced)))
         else case GetMove iterations (Board currentGS) activeIDs turnIdx of
                Inl e \<Rightarrow> Inl e
              | Inr move \<Rightarrow> Inr (JSInt (ToIndex move)))"

text \<open>The loop, started at any point: it ends on the first entry with the largest count.\<close>

lemma best_loop:
  "\<exists>v mv. foldl (\<lambda>(bestVisits, bestMove) (m, visits).
                   if visits > bestVisits then (visits, m) else (bestVisits, bestMove))
                (bv :: int, bm :: Move) entries = (v, mv) \<and>
          bv \<le> v \<and> (\<forall>e\<in>set entries. snd e \<le> v) \<and>
          ((v = bv \<and> mv = bm) \<or>
           (bv < v \<and> (\<exists>pre post. entries = pre @ (mv, v) # post \<and> (\<forall>e\<in>set pre. snd e < v))))"
proof (induction entries arbitrary: bv bm)
  case Nil
  then show ?case by simp
next
  case (Cons e entries)
  obtain m visits where e: "e = (m, visits)" by (cases e)
  show ?case
  proof (cases "visits > bv")
    case True
    from Cons.IH [of visits m] obtain v mv where
      f: "foldl (\<lambda>(bestVisits, bestMove) (m, visits).
                   if visits > bestVisits then (visits, m) else (bestVisits, bestMove))
                (visits, m) entries = (v, mv)"
      and le: "visits \<le> v" and mx: "\<forall>e\<in>set entries. snd e \<le> v"
      and w: "(v = visits \<and> mv = m) \<or>
              (visits < v \<and> (\<exists>pre post. entries = pre @ (mv, v) # post \<and> (\<forall>e\<in>set pre. snd e < v)))"
      by blast
    from w have "\<exists>pre post. e # entries = pre @ (mv, v) # post \<and> (\<forall>e\<in>set pre. snd e < v)"
    proof
      assume "v = visits \<and> mv = m"
      with e have "e # entries = [] @ (mv, v) # entries \<and> (\<forall>e\<in>set []. snd e < v)" by simp
      then show ?thesis by blast
    next
      assume "visits < v \<and> (\<exists>pre post. entries = pre @ (mv, v) # post \<and> (\<forall>e\<in>set pre. snd e < v))"
      then obtain pre post where "entries = pre @ (mv, v) # post" "\<forall>e\<in>set pre. snd e < v" "visits < v"
        by blast
      with e have "e # entries = (e # pre) @ (mv, v) # post \<and> (\<forall>e\<in>set (e # pre). snd e < v)"
        by simp
      then show ?thesis by blast
    qed
    with True e f le mx show ?thesis by auto
  next
    case False
    from Cons.IH [of bv bm] obtain v mv where
      f: "foldl (\<lambda>(bestVisits, bestMove) (m, visits).
                   if visits > bestVisits then (visits, m) else (bestVisits, bestMove))
                (bv, bm) entries = (v, mv)"
      and le: "bv \<le> v" and mx: "\<forall>e\<in>set entries. snd e \<le> v"
      and w: "(v = bv \<and> mv = bm) \<or>
              (bv < v \<and> (\<exists>pre post. entries = pre @ (mv, v) # post \<and> (\<forall>e\<in>set pre. snd e < v)))"
      by blast
    from w have "(v = bv \<and> mv = bm) \<or>
       (bv < v \<and> (\<exists>pre post. e # entries = pre @ (mv, v) # post \<and> (\<forall>e\<in>set pre. snd e < v)))"
    proof
      assume "v = bv \<and> mv = bm"
      then show ?thesis by simp
    next
      assume a: "bv < v \<and> (\<exists>pre post. entries = pre @ (mv, v) # post \<and> (\<forall>e\<in>set pre. snd e < v))"
      then obtain pre post where "entries = pre @ (mv, v) # post" "\<forall>e\<in>set pre. snd e < v"
        by blast
      with a e False have "e # entries = (e # pre) @ (mv, v) # post \<and> (\<forall>e\<in>set (e # pre). snd e < v)"
        by auto
      with a show ?thesis by blast
    qed
    with False e f le mx show ?thesis by auto
  qed
qed

lemma best_child_first_max:
  assumes "entries \<noteq> []" "\<forall>e\<in>set entries. 0 \<le> snd e"
  shows "\<exists>v pre post. entries = pre @ (best_child entries, v) # post \<and>
           (\<forall>e\<in>set pre. snd e < v) \<and> (\<forall>e\<in>set entries. snd e \<le> v)"
proof -
  from best_loop [of "-1" "\<lparr>r = 0, c = 0\<rparr>" entries] obtain v mv where
    f: "foldl (\<lambda>(bestVisits, bestMove) (m, visits).
                 if visits > bestVisits then (visits, m) else (bestVisits, bestMove))
              (-1, \<lparr>r = 0, c = 0\<rparr>) entries = (v, mv)"
    and mx: "\<forall>e\<in>set entries. snd e \<le> v"
    and w: "(v = -1 \<and> mv = \<lparr>r = 0, c = 0\<rparr>) \<or>
            (-1 < v \<and> (\<exists>pre post. entries = pre @ (mv, v) # post \<and> (\<forall>e\<in>set pre. snd e < v)))"
    by blast
  from assms obtain e where "e \<in> set entries" "0 \<le> snd e" by (cases entries) auto
  with mx have "0 \<le> v" by fastforce
  with w have "\<exists>pre post. entries = pre @ (mv, v) # post \<and> (\<forall>e\<in>set pre. snd e < v)" by auto
  then obtain pre post where "entries = pre @ (mv, v) # post" "\<forall>e\<in>set pre. snd e < v"
    by blast
  moreover from f have "mv = best_child entries" by (simp add: best_child_def)
  ultimately have "entries = pre @ (best_child entries, v) # post \<and>
           (\<forall>e\<in>set pre. snd e < v) \<and> (\<forall>e\<in>set entries. snd e \<le> v)"
    using mx by simp
  then show ?thesis by blast
qed


text \<open>
  C9. When the root has a child after the iteration loop, GetMoveWithContext returns a child
  edge of the root whose visit count no other child exceeds: the first such child in the
  order in which the range over the map delivers the children. That order may be any order
  of the children, so among children with equal counts the one returned need not be the one
  expanded first.
\<close>

theorem GetMoveWithContext_most_visited:
  "0 \<le> turnIdx \<and> turnIdx < int (length players) \<and>
   cs = children (root_after iteration iterations brd forcedMoves players turnIdx) \<and>
   cs \<noteq> [] \<and> (\<forall>e\<in>set cs. 0 \<le> snd e) \<and> set (range_order cs) = set cs \<longrightarrow>
   (\<exists>m v. GetMoveWithContext iteration range_order iterations brd forcedMoves players turnIdx
            = Inr m \<and>
          (m, v) \<in> set cs \<and> (\<forall>e\<in>set cs. snd e \<le> v) \<and>
          (\<exists>pre post. range_order cs = pre @ (m, v) # post \<and> (\<forall>e\<in>set pre. snd e < v)))"
proof
  assume a: "0 \<le> turnIdx \<and> turnIdx < int (length players) \<and>
   cs = children (root_after iteration iterations brd forcedMoves players turnIdx) \<and>
   cs \<noteq> [] \<and> (\<forall>e\<in>set cs. 0 \<le> snd e) \<and> set (range_order cs) = set cs"
  let ?es = "range_order cs"
  from a have ne: "?es \<noteq> []" by (metis set_empty)
  from a have s1: "set ?es = set cs" by blast
  from a have p1: "\<forall>e\<in>set cs. 0 \<le> snd e" by blast
  from s1 p1 have pos: "\<forall>e\<in>set ?es. 0 \<le> snd e" by simp
  from best_child_first_max [OF ne pos] obtain v pre post where
    v: "?es = pre @ (best_child ?es, v) # post" "\<forall>e\<in>set pre. snd e < v"
       "\<forall>e\<in>set ?es. snd e \<le> v"
    by blast
  from v(1) have "(best_child ?es, v) \<in> set ?es" by (metis in_set_conv_decomp)
  with s1 have mem: "(best_child ?es, v) \<in> set cs" by simp
  from a have bd: "\<not> (turnIdx < 0 \<or> int (length players) \<le> turnIdx)" by linarith
  from a have ce: "children (root_after iteration iterations brd forcedMoves players turnIdx) = cs"
    by blast
  from a have cne: "cs \<noteq> []" by blast
  have r: "GetMoveWithContext iteration range_order iterations brd forcedMoves players turnIdx
             = Inr (best_child ?es)"
    unfolding GetMoveWithContext_def Let_def ce using bd cne by simp
  from v(3) s1 have "\<forall>e\<in>set cs. snd e \<le> v" by simp
  with r mem v(1,2) show "\<exists>m v. GetMoveWithContext iteration range_order iterations brd forcedMoves players turnIdx
            = Inr m \<and>
          (m, v) \<in> set cs \<and> (\<forall>e\<in>set cs. snd e \<le> v) \<and>
          (\<exists>pre post. range_order cs = pre @ (m, v) # post \<and> (\<forall>e\<in>set pre. snd e < v))"
    by blast
qed

theorem GetMoveWithContext_most_visited_witness:
  "(0 :: int) \<le> 0 \<and> (0 :: int) < int (length [0, 1, 2 :: int]) \<and>
   [(\<lparr>r = 0, c = 0\<rparr>, 1), (\<lparr>r = 0, c = 1\<rparr>, 1 :: int)]
     = children (root_after (\<lambda>i root. root\<lparr>children := [(\<lparr>r = 0, c = 0\<rparr>, 1), (\<lparr>r = 0, c = 1\<rparr>, 1)]\<rparr>)
                   1 emptyBoard [] [0, 1, 2] 0) \<and>
   set (rev [(\<lparr>r = 0, c = 0\<rparr>, 1), (\<lparr>r = 0, c = 1\<rparr>, 1 :: int)])
     = set [(\<lparr>r = 0, c = 0\<rparr>, 1), (\<lparr>r = 0, c = 1\<rparr>, 1)] \<and>
   (\<exists>m v. GetMoveWithContext (\<lambda>i root. root\<lparr>children := [(\<lparr>r = 0, c = 0\<rparr>, 1), (\<lparr>r = 0, c = 1\<rparr>, 1)]\<rparr>)
            rev 1 emptyBoard [] [0, 1, 2] 0 = Inr m \<and>
          (m, v) \<in> set [(\<lparr>r = 0, c = 0\<rparr>, 1), (\<lparr>r = 0, c = 1\<rparr>, 1 :: int)])"
proof -
  let ?cs = "[(\<lparr>r = 0, c = 0\<rparr>, 1), (\<lparr>r = 0, c = 1\<rparr>, 1 :: int)]"
  let ?it = "\<lambda>(i :: nat) (root :: MCTSRoot). root\<lparr>children := ?cs\<rparr>"
  have c: "?cs = children (root_after ?it 1 emptyBoard [] [0, 1, 2] 0)"
    by (simp add: root_after_def Let_def)
  have s: "set (rev ?cs) = set ?cs" by (rule set_rev)
  from GetMoveWithContext_most_visited [of 0 "[0, 1, 2]" ?cs ?it 1 emptyBoard "[]" rev] c s
  have "\<exists>m v. GetMoveWithContext ?it rev 1 emptyBoard [] [0, 1, 2] 0 = Inr m \<and> (m, v) \<in> set ?cs"
    by auto
  with c s show ?thesis by simp
qed

text \<open>
  Two children with one visit each, A1 expanded before B1. A range that delivers A1 first
  ends on A1, a range that delivers B1 first ends on B1, the child expanded later; and so
  does the search whose one pass leaves these two children.
\<close>

theorem best_child_tie_counterexample:
  "set [(\<lparr>r = 0, c = 1\<rparr>, 1), (\<lparr>r = 0, c = 0\<rparr>, 1 :: int)]
     = set [(\<lparr>r = 0, c = 0\<rparr>, 1), (\<lparr>r = 0, c = 1\<rparr>, 1)] \<and>
   best_child [(\<lparr>r = 0, c = 0\<rparr>, 1), (\<lparr>r = 0, c = 1\<rparr>, 1)] = \<lparr>r = 0, c = 0\<rparr> \<and>
   best_child [(\<lparr>r = 0, c = 1\<rparr>, 1), (\<lparr>r = 0, c = 0\<rparr>, 1)] = \<lparr>r = 0, c = 1\<rparr> \<and>
   GetMoveWithContext (\<lambda>i root. root\<lparr>children := [(\<lparr>r = 0, c = 0\<rparr>, 1), (\<lparr>r = 0, c = 1\<rparr>, 1)]\<rparr>)
     rev 1 emptyBoard [] [0, 1, 2] 0 = Inr \<lparr>r = 0, c = 1\<rparr>"
  by (auto simp: best_child_def GetMoveWithContext_def root_after_def Let_def)

text \<open>An occupied cell is refused and the state kept; a free one is played when nothing is forced.\<close>

theorem applyMove_rejects_witness:
  "(0 :: int) \<le> 0 \<and> (0 :: int) < 64 \<and> (0 :: int) \<le> 5 \<and> (5 :: int) < 64 \<and>
   fst (applyMove (\<lambda>gs. [0, 1, 2]) (\<lambda>brd ids t. 0) (\<lambda>gs m. gs\<lparr>PlayerID := 1\<rparr>)
          \<lparr>Board = \<lparr>P1 = 1, P2 = 0, P3 = 0, Occupied = 1\<rparr>, PlayerID = 0, ActiveMask = 7,
           Hash = 0, WinnerID = -1\<rparr> [0]) = JSBool False \<and>
   snd (applyMove (\<lambda>gs. [0, 1, 2]) (\<lambda>brd ids t. 0) (\<lambda>gs m. gs\<lparr>PlayerID := 1\<rparr>)
          \<lparr>Board = \<lparr>P1 = 1, P2 = 0, P3 = 0, Occupied = 1\<rparr>, PlayerID = 0, ActiveMask = 7,
           Hash = 0, WinnerID = -1\<rparr> [0])
     = \<lparr>Board = \<lparr>P1 = 1, P2 = 0, P3 = 0, Occupied = 1\<rparr>, PlayerID = 0, ActiveMask = 7,
        Hash = 0, WinnerID = -1\<rparr> \<and>
   fst (applyMove (\<lambda>gs. [0, 1, 2]) (\<lambda>brd ids t. 0) (\<lambda>gs m. gs\<lparr>PlayerID := 1\<rparr>)
          \<lparr>Board = \<lparr>P1 = 1, P2 = 0, P3 = 0, Occupied = 1\<rparr>, PlayerID = 0, ActiveMask = 7,
           Hash = 0, WinnerID = -1\<rparr> [5]) \<noteq> JSBool False \<and>
   snd (applyMove (\<lambda>gs. [0, 1, 2]) (\<lambda>brd ids t. 0) (\<lambda>gs m. gs\<lparr>PlayerID := 1\<rparr>)
          \<lparr>Board = \<lparr>P1 = 1, P2 = 0, P3 = 0, Occupied = 1\<rparr>, PlayerID = 0, ActiveMask = 7,
           Hash = 0, WinnerID = -1\<rparr> [5])
     = \<lparr>Board = \<lparr>P1 = 1, P2 = 0, P3 = 0, Occupied = 1\<rparr>, PlayerID = 1, ActiveMask = 7,
        Hash = 0, WinnerID = -1\<rparr>"
  using applyMove_rejects [of 0 "\<lambda>gs. [0, 1, 2]" "\<lambda>brd ids t. 0" "\<lambda>gs m. gs\<lparr>PlayerID := 1\<rparr>"
      "\<lparr>Board = \<lparr>P1 = 1, P2 = 0, P3 = 0, Occupied = 1\<rparr>, PlayerID = 0, ActiveMask = 7,
        Hash = 0, WinnerID = -1\<rparr>"]
    applyMove_rejects [of 5 "\<lambda>gs. [0, 1, 2]" "\<lambda>brd ids t. 0" "\<lambda>gs m. gs\<lparr>PlayerID := 1\<rparr>"
      "\<lparr>Board = \<lparr>P1 = 1, P2 = 0, P3 = 0, Occupied = 1\<rparr>, PlayerID = 0, ActiveMask = 7,
        Hash = 0, WinnerID = -1\<rparr>"]
  by (simp add: forced_of_def)

section \<open>The fast path of getBestMove\<close>

text \<open>A loop that does not run leaves the root without a child.\<close>

lemma no_iteration:
  "iterations \<le> 0 \<Longrightarrow>
   children (root_after iteration iterations brd forcedMoves players turnIdx) = []"
  by (simp add: root_after_def Let_def)

text \<open>
  C8. Neither getBestMove nor the search has a fast path for a winning cell of the mover.
  getBestMove answers without a search only when the forced-move mask has exactly one cell,
  and then with that cell; in every other state its answer is the cell the search returns.
  The search, when its loop runs no iteration, returns the first forced move, and with no
  forced move the lowest empty cell (A1 on a full board), whether or not the mover has a
  winning cell.
\<close>

theorem getBestMove_fast_path:
  "(forced_of activeFn forcedFn gs \<noteq> 0 \<and> OnesCount64 (forced_of activeFn forcedFn gs) = 1 \<longrightarrow>
      getBestMove activeFn forcedFn searchFn gs args
        = Inr (JSInt (int (TrailingZeros64 (forced_of activeFn forcedFn gs))))) \<and>
   (\<not> (forced_of activeFn forcedFn gs \<noteq> 0 \<and>
       OnesCount64 (forced_of activeFn forcedFn gs) = 1) \<longrightarrow>
      getBestMove activeFn forcedFn searchFn gs args
        = (case searchFn (if length args > 0 then args ! 0 else 10000) (Board gs) (activeFn gs)
                  (indexOf (PlayerID gs) (activeFn gs)) of
             Inl e \<Rightarrow> Inl e
           | Inr move \<Rightarrow> Inr (JSInt (ToIndex move)))) \<and>
   (0 \<le> turnIdx \<and> turnIdx < int (length players) \<and> iterations \<le> 0 \<longrightarrow>
      GetMoveWithContext iteration range_order iterations brd forcedMoves players turnIdx
        = Inr (if forcedMoves \<noteq> [] then forcedMoves ! 0
               else if NOT (Occupied brd) \<noteq> 0
               then MoveFromIndex (int (TrailingZeros64 (NOT (Occupied brd))))
               else \<lparr>r = 0, c = 0\<rparr>))"
proof -
  have a: "getBestMove activeFn forcedFn searchFn gs args
        = Inr (JSInt (int (TrailingZeros64 (forced_of activeFn forcedFn gs))))"
    if "forced_of activeFn forcedFn gs \<noteq> 0 \<and>
        OnesCount64 (forced_of activeFn forcedFn gs) = 1"
    using that by (simp add: getBestMove_def forced_of_def Let_def)
  have b: "getBestMove activeFn forcedFn searchFn gs args
        = (case searchFn (if length args > 0 then args ! 0 else 10000) (Board gs) (activeFn gs)
                  (indexOf (PlayerID gs) (activeFn gs)) of
             Inl e \<Rightarrow> Inl e
           | Inr move \<Rightarrow> Inr (JSInt (ToIndex move)))"
    if "\<not> (forced_of activeFn forcedFn gs \<noteq> 0 \<and>
           OnesCount64 (forced_of activeFn forcedFn gs) = 1)"
    using that by (auto simp: getBestMove_def forced_of_def Let_def)
  have c: "GetMoveWithContext iteration range_order iterations brd forcedMoves players turnIdx
        = Inr (if forcedMoves \<noteq> [] then forcedMoves ! 0
               else if NOT (Occupied brd) \<noteq> 0
               then MoveFromIndex (int (TrailingZeros64 (NOT (Occupied brd))))
               else \<lparr>r = 0, c = 0\<rparr>)"
    if h: "0 \<le> turnIdx \<and> turnIdx < int (length players) \<and> iterations \<le> 0"
  proof -
    from h have bd: "\<not> (turnIdx < 0 \<or> int (length players) \<le> turnIdx)" by linarith
    from h have "iterations \<le> 0" by blast
    note ce = no_iteration [OF this, of iteration brd forcedMoves players turnIdx]
    show ?thesis
      unfolding GetMoveWithContext_def Let_def ce using bd by simp
  qed
  from a b c show ?thesis by blast
qed

text \<open>
  A state with player 0 to move among the players 0, 1, 2: player 0 holds B1, C1, E1 and
  wins on D1, player 1 holds A8, C8, F8 and player 2 holds A6, D6, G6. Nobody threatens
  player 0, so GetValidMoves gives no forced move.
\<close>

lemma count_one:
  "OnesCount64 (0x40000 :: Bitboard) = 1 \<and> TrailingZeros64 (0x40000 :: Bitboard) = 18"
  by code_simp

lemma wins_D1: "GetWinningMoves \<lparr>P1 = 0x16, P2 = 0x2500000000000000, P3 = 0x490000000000, Occupied = 0x2500490000000016\<rparr> 0 = 8"
  by code_simp

lemma kernel_wins_D1:
  "fst (getWinsAndLossesAVX2 0x16 (NOT 0x2500490000000016)) = 8"
  by code_simp

lemma lowest_of_8: "TrailingZeros64 (8 :: Bitboard) = 3"
  by code_simp

lemma lowest_empty:
  "NOT (0x2500490000000016 :: Bitboard) \<noteq> 0 \<and>
   TrailingZeros64 (NOT (0x2500490000000016 :: Bitboard)) = 0"
  by code_simp

lemma valid_none: "GetValidMoves \<lparr>P1 = 0x16, P2 = 0x2500000000000000, P3 = 0x490000000000, Occupied = 0x2500490000000016\<rparr> 0 1 = None"
  by code_simp

lemma search_fallback:
  "GetMoveWithContext (\<lambda>i root. root) id 0 \<lparr>P1 = 0x16, P2 = 0x2500000000000000, P3 = 0x490000000000, Occupied = 0x2500490000000016\<rparr> [] [0, 1, 2] 0 = Inr \<lparr>r = 0, c = 0\<rparr>"
  using lowest_empty
  by (simp add: GetMoveWithContext_def root_after_def Let_def MoveFromIndex_def go_div_def
      go_mod_def)

lemma search_none_forced:
  "search_GetMove (\<lambda>i root. root) id 0 \<lparr>P1 = 0x16, P2 = 0x2500000000000000, P3 = 0x490000000000, Occupied = 0x2500490000000016\<rparr> [0, 1, 2] 0 = Inr \<lparr>r = 0, c = 0\<rparr>"
  using valid_none search_fallback by (simp add: search_GetMove_def)

theorem getBestMove_fast_path_witness:
  "getBestMove (\<lambda>gs. [0, 1, 2]) (\<lambda>brd ids t. 0x40000) (search_GetMove (\<lambda>i root. root) id) (\<lparr>Board = \<lparr>P1 = 0x16, P2 = 0x2500000000000000, P3 = 0x490000000000, Occupied = 0x2500490000000016\<rparr>, PlayerID = 0, ActiveMask = 7, Hash = 0, WinnerID = -1\<rparr>) [100]
     = Inr (JSInt 18) \<and>
   getBestMove (\<lambda>gs. [0, 1, 2]) (\<lambda>brd ids t. 0) (search_GetMove (\<lambda>i root. root) id) (\<lparr>Board = \<lparr>P1 = 0x16, P2 = 0x2500000000000000, P3 = 0x490000000000, Occupied = 0x2500490000000016\<rparr>, PlayerID = 0, ActiveMask = 7, Hash = 0, WinnerID = -1\<rparr>) [0]
     = Inr (JSInt 0) \<and>
   (0 :: int) \<le> 0 \<and> (0 :: int) < int (length [0, 1, 2 :: int]) \<and>
   GetMoveWithContext (\<lambda>i root. root) id 0 \<lparr>P1 = 0x16, P2 = 0x2500000000000000, P3 = 0x490000000000, Occupied = 0x2500490000000016\<rparr> [] [0, 1, 2] 0 = Inr \<lparr>r = 0, c = 0\<rparr>"
  using getBestMove_fast_path [of "\<lambda>gs. [0, 1, 2]" "\<lambda>brd ids t. 0x40000" "(\<lparr>Board = \<lparr>P1 = 0x16, P2 = 0x2500000000000000, P3 = 0x490000000000, Occupied = 0x2500490000000016\<rparr>, PlayerID = 0, ActiveMask = 7, Hash = 0, WinnerID = -1\<rparr>)"
      "search_GetMove (\<lambda>i root. root) id" "[100]" 0 "[0, 1, 2]" 0 "\<lambda>i root. root" id "\<lparr>P1 = 0x16, P2 = 0x2500000000000000, P3 = 0x490000000000, Occupied = 0x2500490000000016\<rparr>" "[]"]
    getBestMove_fast_path [of "\<lambda>gs. [0, 1, 2]" "\<lambda>brd ids t. 0" "(\<lparr>Board = \<lparr>P1 = 0x16, P2 = 0x2500000000000000, P3 = 0x490000000000, Occupied = 0x2500490000000016\<rparr>, PlayerID = 0, ActiveMask = 7, Hash = 0, WinnerID = -1\<rparr>)"
      "search_GetMove (\<lambda>i root. root) id" "[0]" 0 "[0, 1, 2]" 0 "\<lambda>i root. root" id "\<lparr>P1 = 0x16, P2 = 0x2500000000000000, P3 = 0x490000000000, Occupied = 0x2500490000000016\<rparr>" "[]"]
    count_one lowest_empty search_none_forced
  by (simp add: ToIndex_def forced_of_def MoveFromIndex_def go_div_def go_mod_def)

text \<open>
  In that state the mover wins on D1, cell 3, by the scalar extractor and by the kernel. The
  search called with an iteration count of 0, as the game loop of squava.go calls it, returns
  A1, the lowest empty cell, and getBestMove with it answers cell 0.
\<close>

theorem getBestMove_win_counterexample:
  "GetWinningMoves \<lparr>P1 = 0x16, P2 = 0x2500000000000000, P3 = 0x490000000000, Occupied = 0x2500490000000016\<rparr> 0 = 8 \<and>
   fst (getWinsAndLossesAVX2 0x16 (NOT 0x2500490000000016)) = 8 \<and>
   TrailingZeros64 (GetWinningMoves \<lparr>P1 = 0x16, P2 = 0x2500000000000000, P3 = 0x490000000000, Occupied = 0x2500490000000016\<rparr> 0) = 3 \<and>
   GetValidMoves \<lparr>P1 = 0x16, P2 = 0x2500000000000000, P3 = 0x490000000000, Occupied = 0x2500490000000016\<rparr> 0 1 = None \<and>
   GetMoveWithContext (\<lambda>i root. root) id 0 \<lparr>P1 = 0x16, P2 = 0x2500000000000000, P3 = 0x490000000000, Occupied = 0x2500490000000016\<rparr> [] [0, 1, 2] 0 = Inr \<lparr>r = 0, c = 0\<rparr> \<and>
   search_GetMove (\<lambda>i root. root) id 0 \<lparr>P1 = 0x16, P2 = 0x2500000000000000, P3 = 0x490000000000, Occupied = 0x2500490000000016\<rparr> [0, 1, 2] 0 = Inr \<lparr>r = 0, c = 0\<rparr> \<and>
   getBestMove (\<lambda>gs. [0, 1, 2]) (\<lambda>brd ids t. 0) (search_GetMove (\<lambda>i root. root) id) (\<lparr>Board = \<lparr>P1 = 0x16, P2 = 0x2500000000000000, P3 = 0x490000000000, Occupied = 0x2500490000000016\<rparr>, PlayerID = 0, ActiveMask = 7, Hash = 0, WinnerID = -1\<rparr>) [0]
     = Inr (JSInt 0)"
  using wins_D1 kernel_wins_D1 lowest_of_8 valid_none search_fallback search_none_forced
  by (simp add: getBestMove_def Let_def ToIndex_def)

end
